theory Spec2Isabelle
  imports Main "HOL-Library.AList" "HOL-Library.Word"
begin

section \<open>The session store of server/index.js\<close>

text \<open>
  The server keeps one JavaScript \<^verbatim>\<open>Map\<close>, \<^verbatim>\<open>authStore\<close>, from state-token to an
  entry object. An entry is one of three shapes, told apart by its \<^verbatim>\<open>status\<close> field:
  \<^verbatim>\<open>{status:'pending', createdAt}\<close>, \<^verbatim>\<open>{status:'error', error, createdAt}\<close> and
  \<^verbatim>\<open>{status:'complete', createdAt, access_token, refresh_token, id_token, expires_in, user}\<close>.
  A field the provider left out is \<^verbatim>\<open>undefined\<close> in JavaScript and \<open>None\<close> here;
  \<^verbatim>\<open>user\<close> is \<^verbatim>\<open>null\<close> (\<open>None\<close>) or an object. Timestamps are the integer
  milliseconds of \<^verbatim>\<open>Date.now()\<close>.
\<close>

record tokenData =
  access_token :: "string option"
  refresh_token :: "string option"
  id_token :: "string option"
  expires_in :: "int option"

record user =
  user_sub :: "string option"
  user_email :: "string option"
  user_email_verified :: bool
  user_name :: "string option"
  user_picture :: "string option"
  user_given_name :: "string option"
  user_family_name :: "string option"

datatype entry =
    Pending (createdAt: int)
  | Error (createdAt: int) (cause: string)
  | Complete (createdAt: int) (tokens: tokenData) (identity: "user option")

text \<open>
  A \<^verbatim>\<open>Map\<close> iterates in insertion order, \<^verbatim>\<open>set\<close> on a key that is present keeps
  its position and \<^verbatim>\<open>set\<close> on a new key appends: this is an association list with
  \<open>AList.update\<close>, \<open>AList.delete\<close> and \<open>map_of\<close>. The keys of a \<^verbatim>\<open>Map\<close> are
  unique, which is the invariant \<open>store_inv\<close>.
\<close>

type_synonym store = "(string \<times> entry) list"

definition store_get :: "store \<Rightarrow> string \<Rightarrow> entry option" where
  "store_get st k = map_of st k"

definition store_has :: "store \<Rightarrow> string \<Rightarrow> bool" where
  "store_has st k = (map_of st k \<noteq> None)"

definition store_set :: "string \<Rightarrow> entry \<Rightarrow> store \<Rightarrow> store" where
  "store_set k e st = AList.update k e st"

definition store_delete :: "string \<Rightarrow> store \<Rightarrow> store" where
  "store_delete k st = AList.delete k st"

definition store_inv :: "store \<Rightarrow> bool" where
  "store_inv st = distinct (map fst st)"

definition is_terminal :: "entry \<Rightarrow> bool" where
  "is_terminal e = (case e of Pending _ \<Rightarrow> False | Error _ _ \<Rightarrow> True | Complete _ _ _ \<Rightarrow> True)"

subsection \<open>The expiry sweep\<close>

text \<open>
  \<^verbatim>\<open>
  const AUTH_TTL_MS = 5 * 60 * 1000; // 5 minutes
  setInterval(() => {
    const now = Date.now();
    for (const [state, entry] of authStore.entries()) {
      if (now - entry.createdAt > AUTH_TTL_MS) {
        authStore.delete(state);
      }
    }
  }, 60 * 1000);
  \<close>
  The loop visits every entry of the map once, in order, and deletes from the map it
  iterates; deleting the entry under the cursor does not disturb the iteration, so the
  entries visited are those present when the loop starts.
\<close>

definition AUTH_TTL_MS :: int where
  "AUTH_TTL_MS = 5 * 60 * 1000"

definition SWEEP_INTERVAL_MS :: int where
  "SWEEP_INTERVAL_MS = 60 * 1000"

definition expired :: "int \<Rightarrow> entry \<Rightarrow> bool" where
  "expired now e = (now - createdAt e > AUTH_TTL_MS)"

fun sweep_loop :: "int \<Rightarrow> (string \<times> entry) list \<Rightarrow> store \<Rightarrow> store" where
  "sweep_loop now [] st = st"
| "sweep_loop now ((state, e) # rest) st =
     sweep_loop now rest (if expired now e then store_delete state st else st)"

definition sweep :: "int \<Rightarrow> store \<Rightarrow> store" where
  "sweep now st = sweep_loop now st st"

text \<open>
  The timer: the sweep runs at every multiple of the interval after the process
  started at \<open>t0\<close>; \<open>sweep_tick t0 n\<close> is the time of the \<open>n\<close>-th run.
\<close>

definition sweep_tick :: "int \<Rightarrow> nat \<Rightarrow> int" where
  "sweep_tick t0 n = t0 + int n * SWEEP_INTERVAL_MS"

subsection \<open>GET /auth/google/status/:state\<close>

text \<open>
  \<^verbatim>\<open>
  const entry = authStore.get(state);
  if (!entry) return res.status(404).json({ status: 'not_found', error: 'State not found or expired' });
  if (entry.status === 'pending') return res.json({ status: 'pending' });
  if (entry.status === 'error') {
    authStore.delete(state);
    return res.json({ status: 'error', error: entry.error });
  }
  authStore.delete(state);
  res.json({ status: 'complete', access_token: entry.access_token, ..., user: entry.user });
  \<close>
  The body is the \<^verbatim>\<open>AuthStatusResponse\<close> of src/api/auth.ts: the four token fields,
  \<^verbatim>\<open>status\<close>, \<^verbatim>\<open>error\<close> and \<^verbatim>\<open>user\<close>, each absent (\<open>None\<close>) unless the branch
  writes it. A response is the HTTP status code (200 unless \<^verbatim>\<open>res.status\<close> sets it)
  with the body.
\<close>

datatype status_name = pending | complete | error | not_found

record AuthStatusResponse = tokenData +
  status :: status_name
  resp_error :: "string option"
  resp_user :: "user option"

type_synonym 'b response = "nat \<times> 'b"

definition status_only :: "status_name \<Rightarrow> AuthStatusResponse" where
  "status_only s =
     \<lparr>access_token = None, refresh_token = None, id_token = None, expires_in = None,
      status = s, resp_error = None, resp_user = None\<rparr>"

definition auth_google_status :: "string \<Rightarrow> store \<Rightarrow> store \<times> AuthStatusResponse response" where
  "auth_google_status state st =
     (case store_get st state of
        None \<Rightarrow>
          (st, (404, (status_only not_found)\<lparr>resp_error := Some ''State not found or expired''\<rparr>))
      | Some (Pending _) \<Rightarrow> (st, (200, status_only pending))
      | Some (Error _ msg) \<Rightarrow>
          (store_delete state st, (200, (status_only error)\<lparr>resp_error := Some msg\<rparr>))
      | Some (Complete _ td u) \<Rightarrow>
          (store_delete state st,
           (200, \<lparr>access_token = access_token td, refresh_token = refresh_token td,
                  id_token = id_token td, expires_in = expires_in td,
                  status = complete, resp_error = None, resp_user = u\<rparr>)))"

section \<open>Configuration and JavaScript values\<close>

text \<open>
  A query parameter, an environment variable or a field of a provider response is a
  string or \<^verbatim>\<open>undefined\<close>: a \<open>string option\<close>. JavaScript's \<^verbatim>\<open>if (x)\<close>, \<^verbatim>\<open>!x\<close>
  and \<^verbatim>\<open>x || d\<close> test truthiness: \<^verbatim>\<open>undefined\<close> and the empty string are falsy, every
  other string is truthy. \<open>js_string\<close> is the conversion to a string that
  \<^verbatim>\<open>URLSearchParams\<close> applies to a value.
\<close>

definition truthy :: "string option \<Rightarrow> bool" where
  "truthy x = (case x of None \<Rightarrow> False | Some s \<Rightarrow> s \<noteq> [])"

definition js_or :: "string option \<Rightarrow> string \<Rightarrow> string" where
  "js_or x d = (case x of None \<Rightarrow> d | Some s \<Rightarrow> if s \<noteq> [] then s else d)"

definition js_string :: "string option \<Rightarrow> string" where
  "js_string x = (case x of None \<Rightarrow> ''undefined'' | Some s \<Rightarrow> s)"

text \<open>
  \<^verbatim>\<open>
  const PORT = process.env.PORT || 3001;
  const CLIENT_ID = process.env.GOOGLE_CLIENT_ID;
  const CLIENT_SECRET = process.env.GOOGLE_CLIENT_SECRET;
  const CALLBACK_URI = process.env.GOOGLE_CALLBACK_URI || `http://localhost:${PORT}/auth/google/callback`;
  \<close>
\<close>

record env =
  env_PORT :: "string option"
  GOOGLE_CLIENT_ID :: "string option"
  GOOGLE_CLIENT_SECRET :: "string option"
  GOOGLE_CALLBACK_URI :: "string option"

definition PORT :: "env \<Rightarrow> string" where
  "PORT ev = js_or (env_PORT ev) ''3001''"

definition CLIENT_ID :: "env \<Rightarrow> string option" where
  "CLIENT_ID ev = GOOGLE_CLIENT_ID ev"

definition CLIENT_SECRET :: "env \<Rightarrow> string option" where
  "CLIENT_SECRET ev = GOOGLE_CLIENT_SECRET ev"

definition CALLBACK_URI :: "env \<Rightarrow> string" where
  "CALLBACK_URI ev =
     js_or (GOOGLE_CALLBACK_URI ev) (''http://localhost:'' @ PORT ev @ ''/auth/google/callback'')"

subsection \<open>Hexadecimal tokens and form encoding\<close>

text \<open>
  \<^verbatim>\<open>crypto.randomBytes(32).toString('hex')\<close> writes each byte as two lower-case
  hexadecimal digits. \<^verbatim>\<open>URLSearchParams.toString()\<close> is the
  application/x-www-form-urlencoded serializer: a space becomes \<^verbatim>\<open>+\<close>, the bytes
  \<^verbatim>\<open>* - . _\<close>, digits and ASCII letters stay, every other byte becomes \<^verbatim>\<open>%XX\<close> in
  upper-case hexadecimal; pairs are written \<^verbatim>\<open>name=value\<close> and joined by \<^verbatim>\<open>&\<close>.
  A string here is the list of the bytes of its UTF-8 form.
\<close>

definition hex_digit :: "nat \<Rightarrow> char" where
  "hex_digit n = ''0123456789abcdef'' ! (n mod 16)"

definition byte_hex :: "8 word \<Rightarrow> string" where
  "byte_hex b = [hex_digit (unat b div 16), hex_digit (unat b mod 16)]"

definition toString_hex :: "8 word list \<Rightarrow> string" where
  "toString_hex bs = concat (map byte_hex bs)"

definition form_safe :: "char \<Rightarrow> bool" where
  "form_safe c =
     (let n = (of_char c :: nat) in
        n = 42 \<or> n = 45 \<or> n = 46 \<or> n = 95 \<or>
        (48 \<le> n \<and> n \<le> 57) \<or> (65 \<le> n \<and> n \<le> 90) \<or> (97 \<le> n \<and> n \<le> 122))"

definition upper_hex_digit :: "nat \<Rightarrow> char" where
  "upper_hex_digit n = ''0123456789ABCDEF'' ! (n mod 16)"

definition form_encode_byte :: "char \<Rightarrow> string" where
  "form_encode_byte c =
     (if c = CHR '' '' then ''+''
      else if form_safe c then [c]
      else [CHR ''%'', upper_hex_digit (of_char c div 16), upper_hex_digit (of_char c mod 16)])"

definition form_encode :: "string \<Rightarrow> string" where
  "form_encode s = concat (map form_encode_byte s)"

fun join_amp :: "string list \<Rightarrow> string" where
  "join_amp [] = []"
| "join_amp [p] = p"
| "join_amp (p # q # ps) = p @ ''&'' @ join_amp (q # ps)"

definition URLSearchParams_toString :: "(string \<times> string) list \<Rightarrow> string" where
  "URLSearchParams_toString ps =
     join_amp (map (\<lambda>(k, v). form_encode k @ ''='' @ form_encode v) ps)"

subsection \<open>Reading a query string\<close>






section \<open>GET /auth/google/start\<close>

text \<open>
  \<^verbatim>\<open>
  if (!CLIENT_ID) return res.status(500).json({ error: 'Missing GOOGLE_CLIENT_ID' });
  const state = crypto.randomBytes(32).toString('hex');
  authStore.set(state, { status: 'pending', createdAt: Date.now() });
  const params = new URLSearchParams({ client_id: CLIENT_ID, redirect_uri: CALLBACK_URI,
    response_type: 'code', scope: 'openid email profile', state,
    access_type: 'offline', prompt: 'consent' });
  const popupUrl = `https://accounts.google.com/o/oauth2/v2/auth?${params.toString()}`;
  res.json({ state, popupUrl });
  \<close>
  The handler reads two things from outside: the bytes \<^verbatim>\<open>crypto.randomBytes(32)\<close>
  returns and the clock. Both are arguments of the model.
\<close>

datatype start_body =
    StartError string
  | StartAuthResponse (body_state: string) (body_popupUrl: string)

definition start_params :: "env \<Rightarrow> string \<Rightarrow> (string \<times> string) list" where
  "start_params ev st_token =
     [(''client_id'', js_string (CLIENT_ID ev)),
      (''redirect_uri'', CALLBACK_URI ev),
      (''response_type'', ''code''),
      (''scope'', ''openid email profile''),
      (''state'', st_token),
      (''access_type'', ''offline''),
      (''prompt'', ''consent'')]"

definition auth_google_start ::
  "env \<Rightarrow> 8 word list \<Rightarrow> int \<Rightarrow> store \<Rightarrow> store \<times> start_body response" where
  "auth_google_start ev randomBytes now st =
     (if \<not> truthy (CLIENT_ID ev) then (st, (500, StartError ''Missing GOOGLE_CLIENT_ID''))
      else
        let tok = toString_hex randomBytes;
            st' = store_set tok (Pending now) st;
            params = start_params ev tok;
            url = ''https://accounts.google.com/o/oauth2/v2/auth?'' @ URLSearchParams_toString params
        in (st', (200, StartAuthResponse tok url)))"

section \<open>GET /auth/google/callback\<close>

text \<open>
  The handler reads \<^verbatim>\<open>code\<close>, \<^verbatim>\<open>state\<close> and \<^verbatim>\<open>error\<close> from the query string and
  answers with the page \<^verbatim>\<open>popupClosePage(message, success)\<close>. The page is kept as
  its two arguments: the HTML is a fixed template around them.
\<close>

record query =
  q_code :: "string option"
  q_state :: "string option"
  q_error :: "string option"

datatype page = popupClosePage (page_message: string) (page_success: bool)

text \<open>
  The two outbound calls go to the identity provider through axios. A call returns the
  response's data or throws; of what is thrown the handler reads
  \<^verbatim>\<open>err?.response?.data?.error_description\<close> and \<^verbatim>\<open>err.message\<close>. The provider is an
  argument of the model: a function from the request to its outcome. The calls made are
  returned as a list, in order.
  \<^verbatim>\<open>
  const { data: tokenData } = await axios.post('https://oauth2.googleapis.com/token',
    params.toString(), { headers: ... });
  let user = null;
  if (tokenData.id_token) {
    const { data: verified } = await axios.get(
      `https://oauth2.googleapis.com/tokeninfo?id_token=${tokenData.id_token}`);
    if (verified.aud !== CLIENT_ID) throw new Error('Token audience mismatch');
    user = { sub: verified.sub, email: verified.email,
             email_verified: verified.email_verified === 'true', name: verified.name,
             picture: verified.picture, given_name: verified.given_name,
             family_name: verified.family_name };
  }
  \<close>
\<close>

record thrown =
  error_description :: "string option"
  message :: "string option"

record verified =
  aud :: "string option"
  sub :: "string option"
  email :: "string option"
  email_verified :: "string option"
  name :: "string option"
  picture :: "string option"
  given_name :: "string option"
  family_name :: "string option"

datatype http_call = POST string string | GET string

record provider =
  axios_post :: "string \<Rightarrow> string \<Rightarrow> thrown + tokenData"
  axios_get :: "string \<Rightarrow> thrown + verified"

definition exchange_params :: "env \<Rightarrow> string \<Rightarrow> (string \<times> string) list" where
  "exchange_params ev code =
     [(''code'', code),
      (''client_id'', js_string (CLIENT_ID ev)),
      (''client_secret'', js_string (CLIENT_SECRET ev)),
      (''redirect_uri'', CALLBACK_URI ev),
      (''grant_type'', ''authorization_code'')]"

definition token_url :: string where
  "token_url = ''https://oauth2.googleapis.com/token''"

definition tokeninfo_url :: "string \<Rightarrow> string" where
  "tokeninfo_url idt = ''https://oauth2.googleapis.com/tokeninfo?id_token='' @ idt"

definition user_of :: "verified \<Rightarrow> user" where
  "user_of v =
     \<lparr>user_sub = sub v, user_email = email v,
      user_email_verified = (email_verified v = Some ''true''),
      user_name = name v, user_picture = picture v,
      user_given_name = given_name v, user_family_name = family_name v\<rparr>"

text \<open>The body of the \<^verbatim>\<open>try\<close> block up to the store write: what it throws, or the
  token data with the user, and the calls it made.\<close>

definition exchange ::
  "env \<Rightarrow> provider \<Rightarrow> string \<Rightarrow> (thrown + tokenData \<times> user option) \<times> http_call list" where
  "exchange ev pr code =
     (let body = URLSearchParams_toString (exchange_params ev code);
          call1 = POST token_url body
      in case axios_post pr token_url body of
           Inl err \<Rightarrow> (Inl err, [call1])
         | Inr td \<Rightarrow>
             (case id_token td of
                None \<Rightarrow> (Inr (td, None), [call1])
              | Some idt \<Rightarrow>
                  if idt = [] then (Inr (td, None), [call1])
                  else
                    let call2 = GET (tokeninfo_url idt)
                    in case axios_get pr (tokeninfo_url idt) of
                         Inl err \<Rightarrow> (Inl err, [call1, call2])
                       | Inr v \<Rightarrow>
                           if aud v \<noteq> CLIENT_ID ev
                           then (Inl \<lparr>error_description = None,
                                      message = Some ''Token audience mismatch''\<rparr>,
                                 [call1, call2])
                           else (Inr (td, Some (user_of v)), [call1, call2])))"

text \<open>
  \<^verbatim>\<open>
  if (error) {
    if (state && authStore.has(state))
      authStore.set(state, { status: 'error', error: error, createdAt: Date.now() });
    return res.send(popupClosePage('Authentication cancelled or failed.', false));
  }
  if (!state || !authStore.has(state))
    return res.status(400).send(popupClosePage('Invalid or expired state.', false));
  if (!code) {
    authStore.set(state, { status: 'error', error: 'No authorization code received', createdAt: Date.now() });
    return res.send(popupClosePage('No authorization code received.', false));
  }
  try { ...
    authStore.set(state, { status: 'complete', createdAt: Date.now(), access_token: tokenData.access_token,
      refresh_token: tokenData.refresh_token, id_token: tokenData.id_token,
      expires_in: tokenData.expires_in, user });
    res.send(popupClosePage('Authentication successful! You can close this window.', true));
  } catch (err) {
    const message = err?.response?.data?.error_description || err.message || 'Token exchange failed';
    authStore.set(state, { status: 'error', error: message, createdAt: Date.now() });
    res.send(popupClosePage(`Authentication failed: ${message}`, false));
  }
  \<close>
  The handler is asynchronous: what comes before the \<^verbatim>\<open>try\<close> block runs when the
  request arrives, and the store write of the \<^verbatim>\<open>try\<close> or \<^verbatim>\<open>catch\<close> block runs
  after the two awaited calls, on the store as it is then. \<open>callback_checks\<close> is the
  first part: it answers, or hands the state and the code on to the exchange.
  \<open>callback_exchange\<close> is the second part; it does not look at the store it writes
  to. \<open>now\<close> is the clock at the store write.
\<close>

definition known :: "store \<Rightarrow> string option \<Rightarrow> bool" where
  "known st s = (case s of None \<Rightarrow> False | Some k \<Rightarrow> k \<noteq> [] \<and> store_has st k)"

definition thrown_message :: "thrown \<Rightarrow> string" where
  "thrown_message err =
     js_or (error_description err) (js_or (message err) ''Token exchange failed'')"

definition callback_checks ::
  "int \<Rightarrow> query \<Rightarrow> store \<Rightarrow> store \<times> page response + string \<times> string" where
  "callback_checks now q st =
     (if truthy (q_error q) then
        Inl ((if known st (q_state q)
              then store_set (js_string (q_state q)) (Error now (js_string (q_error q))) st
              else st),
             (200, popupClosePage ''Authentication cancelled or failed.'' False))
      else if \<not> known st (q_state q) then
        Inl (st, (400, popupClosePage ''Invalid or expired state.'' False))
      else if \<not> truthy (q_code q) then
        Inl (store_set (js_string (q_state q)) (Error now ''No authorization code received'') st,
             (200, popupClosePage ''No authorization code received.'' False))
      else Inr (js_string (q_state q), js_string (q_code q)))"

definition callback_exchange ::
  "env \<Rightarrow> provider \<Rightarrow> int \<Rightarrow> string \<Rightarrow> string \<Rightarrow> store
     \<Rightarrow> store \<times> page response \<times> http_call list" where
  "callback_exchange ev pr now state code st =
     (case exchange ev pr code of
        (Inr (td, u), calls) \<Rightarrow>
          (store_set state
             (Complete now
                \<lparr>access_token = access_token td, refresh_token = refresh_token td,
                 id_token = id_token td, expires_in = expires_in td\<rparr> u) st,
           (200, popupClosePage ''Authentication successful! You can close this window.'' True),
           calls)
      | (Inl err, calls) \<Rightarrow>
          (store_set state (Error now (thrown_message err)) st,
           (200, popupClosePage (''Authentication failed: '' @ thrown_message err) False),
           calls))"

text \<open>
  While the exchange is awaited, other requests and the sweep run on the store: a
  status poll or a sweep may delete the record, another callback may replace it.
  \<open>between\<close> is what they do to the store from the moment the checks have passed to
  the moment of the write. The branches that answer before the \<^verbatim>\<open>try\<close> block have
  no await: they read and write the store of the request's arrival.
\<close>

definition auth_google_callback_async ::
  "env \<Rightarrow> provider \<Rightarrow> int \<Rightarrow> query \<Rightarrow> (store \<Rightarrow> store) \<Rightarrow> store
     \<Rightarrow> store \<times> page response \<times> http_call list" where
  "auth_google_callback_async ev pr now q between st =
     (case callback_checks now q st of
        Inl (st', resp) \<Rightarrow> (st', resp, [])
      | Inr (state, code) \<Rightarrow> callback_exchange ev pr now state code (between st))"

text \<open>
  The handler when nothing else touches the store during the exchange (\<open>between\<close> is
  the identity): the execution model of the specification, in which a request is
  handled to completion.
\<close>

definition auth_google_callback ::
  "env \<Rightarrow> provider \<Rightarrow> int \<Rightarrow> query \<Rightarrow> store \<Rightarrow> store \<times> page response \<times> http_call list" where
  "auth_google_callback ev pr now q st =
     (case callback_checks now q st of
        Inl (st', resp) \<Rightarrow> (st', resp, [])
      | Inr (state, code) \<Rightarrow> callback_exchange ev pr now state code st)"

section \<open>The poll controller of the client (App.tsx)\<close>

text \<open>
  \<^verbatim>\<open>
  const POLL_INTERVAL_MS = 1000;
  const MAX_POLL_ATTEMPTS = 300; // 5 minutes max
  const [authState, setAuthState] = useState<AuthState>({ loading: false, polling: false });
  const pollCountRef = useRef(0);
  const pollIntervalRef = useRef<number | null>(null);
  \<close>
  The controller's state is the React state \<^verbatim>\<open>authState\<close> and the two refs. A timer
  handle is a positive number, so \<^verbatim>\<open>if (pollIntervalRef.current)\<close> asks whether a timer
  is armed: the ref is a \<open>bool\<close>. What the controller does to the outside is recorded
  in \<open>events\<close>: each call of \<^verbatim>\<open>checkAuthStatus\<close>, with the time since polling
  started, and each \<^verbatim>\<open>setAuthState\<close>. \<open>elapsed\<close> is that time, advanced by the
  timer.
\<close>

definition POLL_INTERVAL_MS :: nat where
  "POLL_INTERVAL_MS = 1000"

definition MAX_POLL_ATTEMPTS :: nat where
  "MAX_POLL_ATTEMPTS = 300"

record AuthState =
  loading :: bool
  polling :: bool
  auth_error :: "string option"
  success :: "bool option"
  accessToken :: "string option"
  idToken :: "string option"
  auth_user :: "user option"

datatype event = StatusCheck string nat | SetAuthState AuthState

record controller =
  authState :: AuthState
  pollCount :: nat
  pollInterval :: bool
  inflight :: "nat list"
  elapsed :: nat
  events :: "event list"

definition idle :: AuthState where
  "idle = \<lparr>loading = False, polling = False, auth_error = None, success = None,
           accessToken = None, idToken = None, auth_user = None\<rparr>"

definition setAuthState :: "AuthState \<Rightarrow> controller \<Rightarrow> controller" where
  "setAuthState a c = c\<lparr>authState := a, events := events c @ [SetAuthState a]\<rparr>"

text \<open>
  \<^verbatim>\<open>
  const stopPolling = useCallback(() => {
    if (pollIntervalRef.current) { clearInterval(pollIntervalRef.current); pollIntervalRef.current = null; }
    pollCountRef.current = 0;
  }, []);
  const handleAuthComplete = useCallback((result: AuthStatusResponse) => {
    stopPolling();
    if (result.status === 'complete') {
      setAuthState({ loading: false, polling: false, success: true,
        accessToken: result.access_token, idToken: result.id_token, user: result.user });
    } else if (result.status === 'error') {
      setAuthState({ loading: false, polling: false, error: result.error || 'Authentication failed' });
    }
  }, [stopPolling]);
  \<close>
\<close>

definition stopPolling :: "controller \<Rightarrow> controller" where
  "stopPolling c = c\<lparr>pollInterval := False, pollCount := 0\<rparr>"

definition handleAuthComplete :: "AuthStatusResponse \<Rightarrow> controller \<Rightarrow> controller" where
  "handleAuthComplete result c =
     (let c1 = stopPolling c in
        if status result = complete then
          setAuthState (idle\<lparr>success := Some True, accessToken := access_token result,
                             idToken := id_token result, auth_user := resp_user result\<rparr>) c1
        else if status result = error then
          setAuthState (idle\<lparr>auth_error := Some (js_or (resp_error result) ''Authentication failed'')\<rparr>) c1
        else c1)"

text \<open>
  \<^verbatim>\<open>
  export async function checkAuthStatus(state: string): Promise<AuthStatusResponse> {
    const { data } = await apiClient.get<AuthStatusResponse>(`/auth/google/status/${state}`);
    return data;
  }
  apiClient.interceptors.response.use((response) => response, (error) => {
    const message = error?.response?.data?.message || error.message;
    return Promise.reject(new Error(message));
  });
  \<close>
  \<^verbatim>\<open>apiClient\<close> is an axios instance with the default \<^verbatim>\<open>validateStatus\<close>: an answer
  with a status code from 200 to 299 resolves with its data, every other answer and a
  request with no answer (network failure, the 8 s timeout) reject. The body of a status
  answer has no \<^verbatim>\<open>message\<close> field, so the rejection carries axios's own message.
\<close>

datatype 'a settled = Resolved 'a | Rejected string

datatype http_result = Response nat AuthStatusResponse | NoResponse string

fun decimal :: "nat \<Rightarrow> string" where
  "decimal n =
     (if n < 10 then [''0123456789'' ! n]
      else decimal (n div 10) @ [''0123456789'' ! (n mod 10)])"

definition checkAuthStatus :: "http_result \<Rightarrow> AuthStatusResponse settled" where
  "checkAuthStatus r =
     (case r of
        Response code data \<Rightarrow>
          if 200 \<le> code \<and> code < 300 then Resolved data
          else Rejected (''Request failed with status code '' @ decimal code)
      | NoResponse msg \<Rightarrow> Rejected msg)"

text \<open>
  \<^verbatim>\<open>
  const startPolling = useCallback((state: string) => {
    setAuthState((prev) => ({ ...prev, polling: true }));
    pollIntervalRef.current = window.setInterval(async () => {
      pollCountRef.current += 1;
      if (pollCountRef.current > MAX_POLL_ATTEMPTS) {
        stopPolling();
        setAuthState({ loading: false, polling: false, error: 'Authentication timed out. Please try again.' });
        return;
      }
      try {
        const result = await checkAuthStatus(state);
        if (result.status === 'complete' || result.status === 'error') {
          handleAuthComplete(result);
        } else if (result.status === 'not_found') {
          stopPolling();
          setAuthState({ loading: false, polling: false, error: 'Session expired. Please try again.' });
        }
        // If pending, keep polling
      } catch (err) {
        // Network error - keep trying
        console.warn('Polling error:', err);
      }
    }, POLL_INTERVAL_MS);
  }, [handleAuthComplete, stopPolling]);
  \<close>
  \<^verbatim>\<open>startPolling\<close> shows that polling started, arms the timer and returns. The timer's
  callback is asynchronous: \<open>tick_send\<close> is its body up to the \<^verbatim>\<open>await\<close>, which
  counts the tick and sends a status check, and \<open>tick_settle\<close> is the rest, run when
  that call settles. The timer does not wait for a call in flight, so the next tick can
  come first: \<open>inflight\<close> holds the calls sent and not yet settled, each named by its
  number in the order of sending.
\<close>

type_synonym stub = "nat \<Rightarrow> http_result"

fun is_check :: "event \<Rightarrow> bool" where
  "is_check (StatusCheck _ _) = True"
| "is_check (SetAuthState _) = False"

definition checks :: "controller \<Rightarrow> nat" where
  "checks c = length (filter is_check (events c))"

definition surfaced :: "controller \<Rightarrow> AuthState list" where
  "surfaced c = concat (map (\<lambda>e. case e of SetAuthState a \<Rightarrow> [a] | StatusCheck _ _ \<Rightarrow> []) (events c))"

definition startPolling :: "controller \<Rightarrow> controller" where
  "startPolling c =
     (setAuthState ((authState c)\<lparr>polling := True\<rparr>) c)\<lparr>pollInterval := True, elapsed := 0\<rparr>"

definition tick_send :: "string \<Rightarrow> controller \<Rightarrow> controller" where
  "tick_send state c =
     (let c1 = c\<lparr>pollCount := pollCount c + 1, elapsed := elapsed c + POLL_INTERVAL_MS\<rparr> in
        if pollCount c1 > MAX_POLL_ATTEMPTS then
          setAuthState (idle\<lparr>auth_error := Some ''Authentication timed out. Please try again.''\<rparr>)
            (stopPolling c1)
        else
          c1\<lparr>events := events c1 @ [StatusCheck state (elapsed c1)],
             inflight := inflight c1 @ [checks c1]\<rparr>)"

definition tick_settle :: "AuthStatusResponse settled \<Rightarrow> controller \<Rightarrow> controller" where
  "tick_settle out c =
     (case out of
        Rejected _ \<Rightarrow> c
      | Resolved result \<Rightarrow>
          if status result = complete \<or> status result = error then handleAuthComplete result c
          else if status result = not_found then
            setAuthState (idle\<lparr>auth_error := Some ''Session expired. Please try again.''\<rparr>)
              (stopPolling c)
          else c)"

text \<open>
  What happens to the controller, one step at a time: the timer fires (only while it is
  armed), or a call in flight settles. \<open>stub n\<close> is what the HTTP layer has for the
  call sent after \<open>n\<close> earlier calls, and \<^verbatim>\<open>checkAuthStatus\<close> makes of it the outcome the
  callback awaits. A run is any list of steps; the order of ticks and answers is the
  schedule of the timer and the network.
\<close>

datatype step = Tick | Answer nat

definition poll_step :: "stub \<Rightarrow> string \<Rightarrow> step \<Rightarrow> controller \<Rightarrow> controller" where
  "poll_step stub state s c =
     (case s of
        Tick \<Rightarrow> if pollInterval c then tick_send state c else c
      | Answer i \<Rightarrow>
          if i \<in> set (inflight c)
          then tick_settle (checkAuthStatus (stub i)) (c\<lparr>inflight := removeAll i (inflight c)\<rparr>)
          else c)"

fun poll_run :: "stub \<Rightarrow> string \<Rightarrow> step list \<Rightarrow> controller \<Rightarrow> controller" where
  "poll_run stub state [] c = c"
| "poll_run stub state (s # ss) c = poll_run stub state ss (poll_step stub state s c)"

text \<open>The schedule in which every call settles before the next tick: \<open>n\<close> rounds of a
  tick and the answer to its call.\<close>

definition in_turn :: "nat \<Rightarrow> step list" where
  "in_turn n = concat (map (\<lambda>i. [Tick, Answer i]) [0..<n])"

definition ticks :: "step list \<Rightarrow> nat" where
  "ticks ss = length (filter (\<lambda>s. s = Tick) ss)"

definition initial :: controller where
  "initial = \<lparr>authState = idle, pollCount = 0, pollInterval = False, inflight = [],
              elapsed = 0, events = []\<rparr>"

section \<open>The record a callback writes\<close>

text \<open>The record a callback writes when the state is known: it depends on the
  request, the provider and the clock, and not on the store.\<close>

definition written :: "env \<Rightarrow> provider \<Rightarrow> int \<Rightarrow> query \<Rightarrow> entry" where
  "written ev pr now q =
     (if truthy (q_error q) then Error now (js_string (q_error q))
      else if \<not> truthy (q_code q) then Error now ''No authorization code received''
      else case fst (exchange ev pr (js_string (q_code q))) of
             Inr (td, u) \<Rightarrow> Complete now td u
           | Inl err \<Rightarrow> Error now (thrown_message err))"

section \<open>Example inputs\<close>

text \<open>
  A configuration and two providers, for the concrete runs below: one provider answers
  the token request without an identity token, the other with an identity token that
  verifies to a foreign audience.
\<close>

definition env0 :: env where
  "env0 = \<lparr>env_PORT = None, GOOGLE_CLIENT_ID = Some ''my-app.example'',
           GOOGLE_CLIENT_SECRET = Some ''s3cret'', GOOGLE_CALLBACK_URI = None\<rparr>"

definition provider_plain :: provider where
  "provider_plain =
     \<lparr>axios_post = (\<lambda>url body. Inr \<lparr>access_token = Some ''T'', refresh_token = None,
                                      id_token = None, expires_in = Some 3600\<rparr>),
      axios_get = (\<lambda>url. Inl \<lparr>error_description = None, message = Some ''Network Error''\<rparr>)\<rparr>"

definition provider_other_aud :: provider where
  "provider_other_aud =
     \<lparr>axios_post = (\<lambda>url body. Inr \<lparr>access_token = Some ''T'', refresh_token = None,
                                      id_token = Some ''I'', expires_in = Some 3600\<rparr>),
      axios_get = (\<lambda>url. Inr \<lparr>aud = Some ''another-app.example'', sub = Some ''1234'',
                               email = Some ''a@example.org'', email_verified = Some ''true'',
                               name = Some ''A'', picture = None, given_name = None,
                               family_name = None\<rparr>)\<rparr>"

section \<open>What a poll run looks like\<close>

text \<open>
  Names for the statements about the controller. An outcome \<open>continues\<close> the polling
  when \<open>tick_settle\<close> does nothing: the call was rejected (the \<^verbatim>\<open>catch\<close> branch) or
  resolved with \<^verbatim>\<open>pending\<close>. \<open>shown_for\<close> is the argument of the \<^verbatim>\<open>setAuthState\<close>
  call the controller makes for a response that is not pending: the one in
  \<^verbatim>\<open>handleAuthComplete\<close> for \<^verbatim>\<open>complete\<close> and for \<^verbatim>\<open>error\<close>, the one in the
  \<^verbatim>\<open>not_found\<close> branch otherwise; \<open>timed_out\<close> is the one of the exhausted budget.
\<close>

definition continues :: "AuthStatusResponse settled \<Rightarrow> bool" where
  "continues out = (case out of Rejected _ \<Rightarrow> True | Resolved r \<Rightarrow> status r = pending)"

definition shown_for :: "AuthStatusResponse \<Rightarrow> AuthState" where
  "shown_for result =
     (if status result = complete then
        idle\<lparr>success := Some True, accessToken := access_token result,
             idToken := id_token result, auth_user := resp_user result\<rparr>
      else if status result = error then
        idle\<lparr>auth_error := Some (js_or (resp_error result) ''Authentication failed'')\<rparr>
      else idle\<lparr>auth_error := Some ''Session expired. Please try again.''\<rparr>)"

definition timed_out :: AuthState where
  "timed_out = idle\<lparr>auth_error := Some ''Authentication timed out. Please try again.''\<rparr>"

text \<open>
  \<open>advance state k c\<close> is \<open>c\<close> after \<open>k\<close> rounds in which the timer fired, a status
  check was sent and its answer left the timer armed.
\<close>

definition advance :: "string \<Rightarrow> nat \<Rightarrow> controller \<Rightarrow> controller" where
  "advance state k c =
     c\<lparr>pollCount := pollCount c + k, elapsed := elapsed c + k * POLL_INTERVAL_MS,
       events := events c @
         map (\<lambda>i. StatusCheck state (elapsed c + (i + 1) * POLL_INTERVAL_MS)) [0..<k]\<rparr>"

text \<open>
  Stubs of the status endpoint: four times pending and then complete, each with code
  200; a transport that always fails; and a server that has no record for the token,
  whose answer is that of \<open>auth_google_status\<close> on the empty store. Two
  schedules: every call settles before the next tick, and every call takes two and a
  half seconds.
\<close>

definition stub_pending4 :: stub where
  "stub_pending4 i =
     (if i < 4 then Response 200 (status_only pending)
      else Response 200 \<lparr>access_token = Some ''T'', refresh_token = None, id_token = Some ''I'',
                     expires_in = Some 3600, status = complete, resp_error = None,
                     resp_user = None\<rparr>)"

definition stub_offline :: stub where
  "stub_offline i = NoResponse ''Network Error''"

definition stub_no_record :: stub where
  "stub_no_record i =
     Response (fst (snd (auth_google_status ''ab'' [])))
              (snd (snd (auth_google_status ''ab'' [])))"

definition slow_answers :: "step list" where
  "slow_answers =
     [Tick, Tick, Tick, Answer 0, Tick, Answer 1, Tick, Answer 2, Tick, Answer 3, Tick,
      Answer 4, Answer 5, Answer 6]"

text \<open>
  What holds of the controller after any run from \<^verbatim>\<open>startPolling\<close>: at most
  \<open>MAX_POLL_ATTEMPTS\<close> checks were sent, the \<open>i\<close>-th of them \<open>i\<close> intervals after the
  start, and while the timer is armed the counter and the clock agree with the number
  of checks.
\<close>

definition poll_inv :: "string \<Rightarrow> controller \<Rightarrow> bool" where
  "poll_inv state c =
     (checks c \<le> MAX_POLL_ATTEMPTS \<and>
      (pollInterval c \<longrightarrow> pollCount c = checks c \<and> elapsed c = checks c * POLL_INTERVAL_MS) \<and>
      filter is_check (events c) =
        map (\<lambda>i. StatusCheck state ((i + 1) * POLL_INTERVAL_MS)) [0..<checks c])"

section \<open>Properties of the store\<close>

lemma store_get_set:
  "store_get (store_set k e st) k' = (if k' = k then Some e else store_get st k')"
  by (simp add: store_get_def store_set_def update_conv')

lemma store_get_delete:
  "store_get (store_delete k st) k' = (if k' = k then None else store_get st k')"
  by (simp add: store_get_def store_delete_def delete_conv')

lemma store_has_get: "store_has st k = (store_get st k \<noteq> None)"
  by (simp add: store_has_def store_get_def)

lemma store_inv_set: "store_inv st \<Longrightarrow> store_inv (store_set k e st)"
  by (simp add: store_inv_def store_set_def distinct_update)

lemma store_inv_delete: "store_inv st \<Longrightarrow> store_inv (store_delete k st)"
  by (simp add: store_inv_def store_delete_def distinct_delete)

lemma store_inv_mem: "store_inv st \<Longrightarrow> ((k, e) \<in> set st) = (store_get st k = Some e)"
  by (simp add: store_inv_def store_get_def)

lemma store_delete_filter: "store_delete k st = filter (\<lambda>p. fst p \<noteq> k) st"
  by (induction st) (auto simp: store_delete_def)

text \<open>
  The loop over a snapshot \<open>xs\<close> of the entries removes from \<open>st\<close> every key that
  has an expired entry in \<open>xs\<close>, and nothing else; the order of what stays is kept.
\<close>

lemma sweep_loop_filter:
  "sweep_loop now xs st = filter (\<lambda>p. \<not> (\<exists>e. (fst p, e) \<in> set xs \<and> expired now e)) st"
proof (induction xs arbitrary: st)
  case Nil
  then show ?case by simp
next
  case (Cons x xs)
  obtain k e where x: "x = (k, e)" by (cases x)
  show ?case
  proof (cases "expired now e")
    case True
    then show ?thesis
      unfolding x by (auto simp: Cons.IH store_delete_filter intro!: filter_cong)
  next
    case False
    then show ?thesis
      unfolding x by (auto simp: Cons.IH intro!: filter_cong)
  qed
qed

lemma sweep_filter:
  assumes "store_inv st"
  shows "sweep now st = filter (\<lambda>p. \<not> expired now (snd p)) st"
proof -
  have "\<And>p. p \<in> set st \<Longrightarrow> (\<exists>e. (fst p, e) \<in> set st \<and> expired now e) = expired now (snd p)"
  proof -
    fix p assume p: "p \<in> set st"
    obtain k e where pe: "p = (k, e)" by (cases p)
    from p pe assms have "store_get st k = Some e" by (simp add: store_inv_mem)
    with assms show "(\<exists>e. (fst p, e) \<in> set st \<and> expired now e) = expired now (snd p)"
      by (auto simp: pe store_inv_mem)
  qed
  then show ?thesis
    unfolding sweep_def sweep_loop_filter by (auto intro!: filter_cong)
qed

lemma store_get_filter:
  "store_inv st \<Longrightarrow>
   store_get (filter P st) k =
     (case store_get st k of None \<Rightarrow> None | Some e \<Rightarrow> if P (k, e) then Some e else None)"
  unfolding store_inv_def store_get_def
  by (induction st) (auto split: option.splits simp: map_of_eq_None_iff image_iff)

lemma store_get_sweep:
  "store_inv st \<Longrightarrow>
   store_get (sweep now st) k =
     (case store_get st k of None \<Rightarrow> None | Some e \<Rightarrow> if expired now e then None else Some e)"
  by (simp add: sweep_filter store_get_filter split: option.splits)

lemma store_inv_sweep: "store_inv st \<Longrightarrow> store_inv (sweep now st)"
  by (simp add: sweep_filter) (simp add: store_inv_def distinct_map_filter)

lemma status_not_found:
  "store_get st k = None \<Longrightarrow>
     auth_google_status k st =
       (st, (404, (status_only not_found)\<lparr>resp_error := Some ''State not found or expired''\<rparr>))"
  by (simp add: auth_google_status_def)

section \<open>The status endpoint\<close>

text \<open>
  Claim C8 (status on unknown tokens). For every state-token with no record in the
  store, \<open>auth_google_status\<close> answers HTTP 404 with the body
  \<^verbatim>\<open>{status: 'not_found', error: 'State not found or expired'}\<close> and returns the store
  as it was. The model is a total function whose only branch on a missing record is
  this one, so no other branch is reached and nothing is thrown.
\<close>

theorem status_unknown_not_found:
  "store_get st state = None \<Longrightarrow>
     auth_google_status state st =
       (st, (404, \<lparr>access_token = None, refresh_token = None, id_token = None, expires_in = None,
                   status = not_found, resp_error = Some ''State not found or expired'',
                   resp_user = None\<rparr>))"
  by (simp add: auth_google_status_def status_only_def)

theorem status_unknown_not_found_witness:
  "store_get [(''ab'', Pending 5)] ''cd'' = None \<and>
   auth_google_status ''cd'' [(''ab'', Pending 5)] =
       ([(''ab'', Pending 5)],
        (404, \<lparr>access_token = None, refresh_token = None, id_token = None, expires_in = None,
                   status = not_found, resp_error = Some ''State not found or expired'',
                   resp_user = None\<rparr>))"
  using status_unknown_not_found [of "[(''ab'', Pending 5)]" "''cd''"]
  by (simp add: store_get_def)



section \<open>The expiry sweep, proved\<close>

text \<open>
  Claim C4 (TTL sweep). The TTL is 5 minutes (300000 ms) and the sweep timer's period
  is 60 seconds. A sweep at time \<open>now\<close> keeps, in order and unchanged, exactly the
  records with \<open>now - createdAt \<le> 300000\<close> and deletes exactly those with
  \<open>now - createdAt > 300000\<close>. In particular a record that is still pending (never
  finalized) and was created more than the TTL before the sweep is gone after it, and
  \<open>auth_google_status\<close> then answers 404 \<^verbatim>\<open>not_found\<close> for its token.
\<close>

theorem sweep_ttl:
  assumes "store_inv st"
  shows "AUTH_TTL_MS = 300000 \<and> SWEEP_INTERVAL_MS = 60000 \<and>
         sweep_tick t0 (Suc n) - sweep_tick t0 n = 60000 \<and>
         sweep now st = filter (\<lambda>p. \<not> (now - createdAt (snd p) > 300000)) st \<and>
         (\<forall>k. store_get (sweep now st) k =
                (case store_get st k of
                   None \<Rightarrow> None
                 | Some e \<Rightarrow> if now - createdAt e > 300000 then None else Some e)) \<and>
         (\<forall>k t. store_get st k = Some (Pending t) \<and> now - t > 300000 \<longrightarrow>
                auth_google_status k (sweep now st) =
                  (sweep now st,
                   (404, (status_only not_found)\<lparr>resp_error := Some ''State not found or expired''\<rparr>)))"
proof -
  have ttl: "AUTH_TTL_MS = 300000" by (simp add: AUTH_TTL_MS_def)
  have iv: "SWEEP_INTERVAL_MS = 60000" by (simp add: SWEEP_INTERVAL_MS_def)
  have tick: "sweep_tick t0 (Suc n) - sweep_tick t0 n = 60000"
    by (simp add: sweep_tick_def iv algebra_simps)
  have flt: "sweep now st = filter (\<lambda>p. \<not> (now - createdAt (snd p) > 300000)) st"
    using sweep_filter [OF assms, of now] by (simp add: expired_def ttl)
  have get: "store_get (sweep now st) k =
      (case store_get st k of
         None \<Rightarrow> None
       | Some e \<Rightarrow> if now - createdAt e > 300000 then None else Some e)" for k
    by (simp add: store_get_sweep [OF assms] expired_def ttl split: option.splits)
  have gone: "auth_google_status k (sweep now st) =
      (sweep now st,
       (404, (status_only not_found)\<lparr>resp_error := Some ''State not found or expired''\<rparr>))"
    if "store_get st k = Some (Pending t) \<and> now - t > 300000" for k t
  proof -
    from that have "store_get (sweep now st) k = None" by (simp add: get)
    then show ?thesis by (rule status_not_found)
  qed
  from ttl iv tick flt get gone show ?thesis by blast
qed

theorem sweep_ttl_witness:
  "store_inv [(''ab'', Pending 0), (''cd'', Pending 100000), (''ef'', Error 300000 ''access_denied'')] \<and>
   sweep 400000 [(''ab'', Pending 0), (''cd'', Pending 100000), (''ef'', Error 300000 ''access_denied'')]
     = [(''cd'', Pending 100000), (''ef'', Error 300000 ''access_denied'')] \<and>
   auth_google_status ''ab''
       (sweep 400000 [(''ab'', Pending 0), (''cd'', Pending 100000), (''ef'', Error 300000 ''access_denied'')])
     = ([(''cd'', Pending 100000), (''ef'', Error 300000 ''access_denied'')],
        (404, (status_only not_found)\<lparr>resp_error := Some ''State not found or expired''\<rparr>))"
proof -
  let ?st = "[(''ab'', Pending 0), (''cd'', Pending 100000), (''ef'', Error 300000 ''access_denied'')]"
  have inv: "store_inv ?st" by (simp add: store_inv_def)
  have p: "store_get ?st ''ab'' = Some (Pending 0) \<and> (400000::int) - 0 > 300000"
    by (simp add: store_get_def)
  note t = sweep_ttl [OF inv, of 0 0 400000]
  from t have "sweep 400000 ?st = filter (\<lambda>p. \<not> (400000 - createdAt (snd p) > 300000)) ?st"
    by (elim conjE)
  then have s: "sweep 400000 ?st = [(''cd'', Pending 100000), (''ef'', Error 300000 ''access_denied'')]"
    by simp
  from t p have "auth_google_status ''ab'' (sweep 400000 ?st) =
      (sweep 400000 ?st,
       (404, (status_only not_found)\<lparr>resp_error := Some ''State not found or expired''\<rparr>))"
    by blast
  with inv s show ?thesis by simp
qed

section \<open>The start endpoint\<close>







lemma form_encode_append: "form_encode (a @ b) = form_encode a @ form_encode b"
  by (simp add: form_encode_def)






























section \<open>The callback endpoint\<close>

lemma known_Some: "known st (Some k) = (k \<noteq> [] \<and> store_get st k \<noteq> None)"
  by (simp add: known_def store_has_get)


lemma tokenData_copy:
  "\<lparr>access_token = access_token td, refresh_token = refresh_token td,
    id_token = id_token td, expires_in = expires_in td\<rparr> = (td :: tokenData)"
  by simp

lemma callback_unknown:
  "\<not> known st (q_state q) \<Longrightarrow> fst (auth_google_callback ev pr now q st) = st"
  by (simp add: auth_google_callback_def callback_checks_def callback_exchange_def)

lemma callback_error_branch:
  "truthy (q_error q) \<Longrightarrow> known st (q_state q) \<Longrightarrow>
     auth_google_callback ev pr now q st =
       (store_set (js_string (q_state q)) (Error now (js_string (q_error q))) st,
        (200, popupClosePage ''Authentication cancelled or failed.'' False), [])"
  by (simp add: auth_google_callback_def callback_checks_def callback_exchange_def)

lemma callback_no_code:
  "\<not> truthy (q_error q) \<Longrightarrow> known st (q_state q) \<Longrightarrow> \<not> truthy (q_code q) \<Longrightarrow>
     auth_google_callback ev pr now q st =
       (store_set (js_string (q_state q)) (Error now ''No authorization code received'') st,
        (200, popupClosePage ''No authorization code received.'' False), [])"
  by (simp add: auth_google_callback_def callback_checks_def callback_exchange_def)

lemma callback_exchange_ok:
  "\<not> truthy (q_error q) \<Longrightarrow> known st (q_state q) \<Longrightarrow> truthy (q_code q) \<Longrightarrow>
   exchange ev pr (js_string (q_code q)) = (Inr (td, u), calls) \<Longrightarrow>
     auth_google_callback ev pr now q st =
       (store_set (js_string (q_state q)) (Complete now td u) st,
        (200, popupClosePage ''Authentication successful! You can close this window.'' True), calls)"
  by (simp add: auth_google_callback_def callback_checks_def callback_exchange_def tokenData_copy)

lemma callback_exchange_failed:
  "\<not> truthy (q_error q) \<Longrightarrow> known st (q_state q) \<Longrightarrow> truthy (q_code q) \<Longrightarrow>
   exchange ev pr (js_string (q_code q)) = (Inl err, calls) \<Longrightarrow>
     auth_google_callback ev pr now q st =
       (store_set (js_string (q_state q)) (Error now (thrown_message err)) st,
        (200, popupClosePage (''Authentication failed: '' @ thrown_message err) False), calls)"
  by (simp add: auth_google_callback_def callback_checks_def callback_exchange_def)

lemma callback_known:
  assumes "known st (q_state q)"
  shows "fst (auth_google_callback ev pr now q st) =
           store_set (js_string (q_state q)) (written ev pr now q) st"
proof (cases "truthy (q_error q)")
  case True
  with assms show ?thesis by (simp add: callback_error_branch written_def)
next
  case noerr: False
  show ?thesis
  proof (cases "truthy (q_code q)")
    case False
    with assms noerr show ?thesis by (simp add: callback_no_code written_def)
  next
    case True
    obtain r calls where ex: "exchange ev pr (js_string (q_code q)) = (r, calls)"
      by (cases "exchange ev pr (js_string (q_code q))")
    show ?thesis
    proof (cases r)
      case (Inl err)
      with assms noerr True ex show ?thesis
        by (simp add: callback_exchange_failed written_def)
    next
      case (Inr p)
      obtain td u where "p = (td, u)" by (cases p)
      with Inr assms noerr True ex show ?thesis
        by (simp add: callback_exchange_ok written_def)
    qed
  qed
qed

lemma written_terminal: "is_terminal (written ev pr now q) \<and> createdAt (written ev pr now q) = now"
  by (simp add: written_def is_terminal_def split: sum.splits prod.splits)

lemma store_inv_callback:
  "store_inv st \<Longrightarrow> store_inv (fst (auth_google_callback ev pr now q st))"
  by (cases "known st (q_state q)") (simp_all add: callback_known callback_unknown store_inv_set)


lemma js_string_Some: "js_string (Some s) = s"
  by (simp add: js_string_def)

lemma truthy_Some: "truthy (Some s) = (s \<noteq> [])"
  by (simp add: truthy_def)

lemma status_error:
  "store_get st k = Some (Error t msg) \<Longrightarrow>
     auth_google_status k st =
       (store_delete k st, (200, (status_only error)\<lparr>resp_error := Some msg\<rparr>))"
  by (simp add: auth_google_status_def)

lemma status_complete:
  "store_get st k = Some (Complete t td u) \<Longrightarrow>
     auth_google_status k st =
       (store_delete k st,
        (200, \<lparr>access_token = access_token td, refresh_token = refresh_token td,
               id_token = id_token td, expires_in = expires_in td,
               status = complete, resp_error = None, resp_user = u\<rparr>))"
  by (simp add: auth_google_status_def)

lemma exchange_body_example:
  "URLSearchParams_toString (exchange_params env0 ''xyz'') =
     ''code=xyz&client_id=my-app.example&client_secret=s3cret&redirect_uri=http%3A%2F%2Flocalhost%3A3001%2Fauth%2Fgoogle%2Fcallback&grant_type=authorization_code''"
  by (simp add: URLSearchParams_toString_def exchange_params_def env0_def CLIENT_ID_def
      CLIENT_SECRET_def CALLBACK_URI_def PORT_def js_or_def js_string_def
      form_encode_def form_encode_byte_def form_safe_def upper_hex_digit_def)






lemma callback_async_id:
  "auth_google_callback_async ev pr now q (\<lambda>s. s) st = auth_google_callback ev pr now q st"
  by (simp add: auth_google_callback_async_def auth_google_callback_def)







lemma exchange_no_id_token:
  assumes "axios_post pr token_url (URLSearchParams_toString (exchange_params ev c)) = Inr td"
    and "\<not> truthy (id_token td)"
  shows "exchange ev pr c =
           (Inr (td, None), [POST token_url (URLSearchParams_toString (exchange_params ev c))])"
  using assms by (simp add: exchange_def truthy_def split: option.splits)

lemma exchange_audience_mismatch:
  assumes "axios_post pr token_url (URLSearchParams_toString (exchange_params ev c)) = Inr td"
    and "id_token td = Some idt" and "idt \<noteq> []"
    and "axios_get pr (tokeninfo_url idt) = Inr v" and "aud v \<noteq> CLIENT_ID ev"
  shows "exchange ev pr c =
           (Inl \<lparr>error_description = None, message = Some ''Token audience mismatch''\<rparr>,
            [POST token_url (URLSearchParams_toString (exchange_params ev c)),
             GET (tokeninfo_url idt)])"
  using assms by (simp add: exchange_def)

lemma thrown_message_mismatch:
  "thrown_message \<lparr>error_description = None, message = Some ''Token audience mismatch''\<rparr>
     = ''Token audience mismatch''"
  by (simp add: thrown_message_def js_or_def)

lemma status_terminal:
  "store_get st k = Some e \<Longrightarrow> is_terminal e \<Longrightarrow>
     fst (snd (auth_google_status k st)) = 200 \<and>
     (status (snd (snd (auth_google_status k st))) = complete \<or>
      status (snd (snd (auth_google_status k st))) = error)"
  by (cases e) (simp_all add: auth_google_status_def is_terminal_def status_only_def)

text \<open>
  Claim C3 (audience binding). Take a callback invocation that reaches the exchange (no
  \<^verbatim>\<open>error\<close> parameter, a non-empty code) for a known state with a pending record,
  where the token request returns an identity token and its verification returns an
  audience other than the configured client identifier. Then the handler treats the
  exchange as failed: the record becomes an error with the cause
  \<^verbatim>\<open>Token audience mismatch\<close>, it is not a complete record, the failure page is
  rendered, and the next status call answers \<^verbatim>\<open>{status: 'error'}\<close> with that cause.
\<close>

theorem callback_audience_mismatch:
  assumes "\<not> truthy (q_error q)"
    and "q_state q = Some k" and "k \<noteq> []" and "store_get st k = Some (Pending t0)"
    and "q_code q = Some c" and "c \<noteq> []"
    and "axios_post pr token_url (URLSearchParams_toString (exchange_params ev c)) = Inr td"
    and "id_token td = Some idt" and "idt \<noteq> []"
    and "axios_get pr (tokeninfo_url idt) = Inr v"
    and "aud v \<noteq> CLIENT_ID ev"
  shows "auth_google_callback ev pr now q st =
           (store_set k (Error now ''Token audience mismatch'') st,
            (200, popupClosePage ''Authentication failed: Token audience mismatch'' False),
            [POST token_url (URLSearchParams_toString (exchange_params ev c)),
             GET (tokeninfo_url idt)]) \<and>
         store_get (fst (auth_google_callback ev pr now q st)) k
           = Some (Error now ''Token audience mismatch'') \<and>
         (\<forall>t td' u. store_get (fst (auth_google_callback ev pr now q st)) k \<noteq> Some (Complete t td' u)) \<and>
         auth_google_status k (fst (auth_google_callback ev pr now q st)) =
           (store_delete k (fst (auth_google_callback ev pr now q st)),
            (200, (status_only error)\<lparr>resp_error := Some ''Token audience mismatch''\<rparr>))"
proof -
  from assms(2-4) have kn: "known st (q_state q)" by (simp add: known_Some)
  from assms(5,6) have tc: "truthy (q_code q)" by (simp add: truthy_def)
  from assms(5) have ex: "exchange ev pr (js_string (q_code q)) =
      (Inl \<lparr>error_description = None, message = Some ''Token audience mismatch''\<rparr>,
       [POST token_url (URLSearchParams_toString (exchange_params ev c)), GET (tokeninfo_url idt)])"
    using exchange_audience_mismatch [OF assms(7-11)] by (simp add: js_string_Some)
  have run: "auth_google_callback ev pr now q st =
      (store_set k (Error now ''Token audience mismatch'') st,
       (200, popupClosePage ''Authentication failed: Token audience mismatch'' False),
       [POST token_url (URLSearchParams_toString (exchange_params ev c)), GET (tokeninfo_url idt)])"
    using callback_exchange_failed [OF assms(1) kn tc ex, of now] assms(2)
    by (simp add: thrown_message_mismatch js_string_Some)
  then have got: "store_get (fst (auth_google_callback ev pr now q st)) k
      = Some (Error now ''Token audience mismatch'')"
    by (simp add: store_get_set)
  from run got status_error [OF got] show ?thesis by simp
qed

theorem callback_audience_mismatch_witness:
  "store_get [(''ab'', Pending 0)] ''ab'' = Some (Pending 0) \<and>
   aud \<lparr>aud = Some ''another-app.example'', sub = Some ''1234'',
        email = Some ''a@example.org'', email_verified = Some ''true'',
        name = Some ''A'', picture = None, given_name = None, family_name = None\<rparr>
     \<noteq> CLIENT_ID env0 \<and>
   auth_google_callback env0 provider_other_aud 9
       \<lparr>q_code = Some ''xyz'', q_state = Some ''ab'', q_error = None\<rparr> [(''ab'', Pending 0)]
     = ([(''ab'', Error 9 ''Token audience mismatch'')],
        (200, popupClosePage ''Authentication failed: Token audience mismatch'' False),
        [POST token_url ''code=xyz&client_id=my-app.example&client_secret=s3cret&redirect_uri=http%3A%2F%2Flocalhost%3A3001%2Fauth%2Fgoogle%2Fcallback&grant_type=authorization_code'',
         GET ''https://oauth2.googleapis.com/tokeninfo?id_token=I'']) \<and>
   auth_google_status ''ab'' [(''ab'', Error 9 ''Token audience mismatch'')]
     = ([], (200, (status_only error)\<lparr>resp_error := Some ''Token audience mismatch''\<rparr>))"
proof -
  let ?q = "\<lparr>q_code = Some ''xyz'', q_state = Some ''ab'', q_error = None\<rparr>"
  let ?st = "[(''ab'', Pending 0 :: entry)]"
  let ?td = "\<lparr>access_token = Some ''T'', refresh_token = None,
               id_token = Some ''I'', expires_in = Some 3600\<rparr>"
  let ?v = "\<lparr>aud = Some ''another-app.example'', sub = Some ''1234'',
        email = Some ''a@example.org'', email_verified = Some ''true'',
        name = Some ''A'', picture = None, given_name = None, family_name = None\<rparr>"
  have h1: "\<not> truthy (q_error ?q)" by (simp add: truthy_def)
  have h2: "q_state ?q = Some ''ab''" by simp
  have h3: "''ab'' \<noteq> []" by simp
  have h4: "store_get ?st ''ab'' = Some (Pending 0)" by (simp add: store_get_def)
  have h5: "q_code ?q = Some ''xyz''" by simp
  have h6: "''xyz'' \<noteq> []" by simp
  have h7: "axios_post provider_other_aud token_url
      (URLSearchParams_toString (exchange_params env0 ''xyz'')) = Inr ?td"
    by (simp add: provider_other_aud_def)
  have h8: "id_token ?td = Some ''I''" by simp
  have h9: "''I'' \<noteq> []" by simp
  have h10: "axios_get provider_other_aud (tokeninfo_url ''I'') = Inr ?v"
    by (simp add: provider_other_aud_def)
  have h11: "aud ?v \<noteq> CLIENT_ID env0" by (simp add: CLIENT_ID_def env0_def)
  note t = callback_audience_mismatch [OF h1 h2 h3 h4 h5 h6 h7 h8 h9 h10 h11, of 9]
  from t have run: "auth_google_callback env0 provider_other_aud 9 ?q ?st =
      (store_set ''ab'' (Error 9 ''Token audience mismatch'') ?st,
       (200, popupClosePage ''Authentication failed: Token audience mismatch'' False),
       [POST token_url (URLSearchParams_toString (exchange_params env0 ''xyz'')),
        GET (tokeninfo_url ''I'')])"
    by (elim conjE)
  from t have st: "auth_google_status ''ab'' (fst (auth_google_callback env0 provider_other_aud 9 ?q ?st)) =
      (store_delete ''ab'' (fst (auth_google_callback env0 provider_other_aud 9 ?q ?st)),
       (200, (status_only error)\<lparr>resp_error := Some ''Token audience mismatch''\<rparr>))"
    by (elim conjE)
  have s: "store_set ''ab'' (Error 9 ''Token audience mismatch'') ?st
      = [(''ab'', Error 9 ''Token audience mismatch'')]"
    by (simp add: store_set_def)
  from run s have r1: "auth_google_callback env0 provider_other_aud 9 ?q ?st =
      ([(''ab'', Error 9 ''Token audience mismatch'')],
       (200, popupClosePage ''Authentication failed: Token audience mismatch'' False),
       [POST token_url ''code=xyz&client_id=my-app.example&client_secret=s3cret&redirect_uri=http%3A%2F%2Flocalhost%3A3001%2Fauth%2Fgoogle%2Fcallback&grant_type=authorization_code'',
        GET ''https://oauth2.googleapis.com/tokeninfo?id_token=I''])"
    by (simp add: exchange_body_example tokeninfo_url_def)
  from st r1 have r2: "auth_google_status ''ab'' [(''ab'', Error 9 ''Token audience mismatch'')]
     = ([], (200, (status_only error)\<lparr>resp_error := Some ''Token audience mismatch''\<rparr>))"
    by (simp add: store_delete_def)
  from h4 h11 r1 r2 show ?thesis by simp
qed

text \<open>
  Claim C10 (no identity token). Take a callback invocation that reaches the exchange
  for a known state, where the token request succeeds and its response has no identity
  token (\<^verbatim>\<open>id_token\<close> undefined or empty). Then the only outbound call is the token
  request: there is no verification call, and whatever the verification endpoint would
  answer plays no part. The record becomes complete with the token fields of the
  response and \<^verbatim>\<open>user\<close> null, and the next status call answers
  \<^verbatim>\<open>{status: 'complete'}\<close> with these fields and \<^verbatim>\<open>user\<close> null.
\<close>

theorem callback_no_id_token:
  assumes "\<not> truthy (q_error q)"
    and "q_state q = Some k" and "k \<noteq> []" and "store_get st k \<noteq> None"
    and "q_code q = Some c" and "c \<noteq> []"
    and "axios_post pr token_url (URLSearchParams_toString (exchange_params ev c)) = Inr td"
    and "\<not> truthy (id_token td)"
  shows "auth_google_callback ev pr now q st =
           (store_set k (Complete now td None) st,
            (200, popupClosePage ''Authentication successful! You can close this window.'' True),
            [POST token_url (URLSearchParams_toString (exchange_params ev c))]) \<and>
         store_get (fst (auth_google_callback ev pr now q st)) k = Some (Complete now td None) \<and>
         auth_google_status k (fst (auth_google_callback ev pr now q st)) =
           (store_delete k (fst (auth_google_callback ev pr now q st)),
            (200, \<lparr>access_token = access_token td, refresh_token = refresh_token td,
                   id_token = id_token td, expires_in = expires_in td,
                   status = complete, resp_error = None, resp_user = None\<rparr>))"
proof -
  from assms(2-4) have kn: "known st (q_state q)" by (simp add: known_Some)
  from assms(5,6) have tc: "truthy (q_code q)" by (simp add: truthy_def)
  from assms(5) have ex: "exchange ev pr (js_string (q_code q)) =
      (Inr (td, None), [POST token_url (URLSearchParams_toString (exchange_params ev c))])"
    using exchange_no_id_token [OF assms(7,8)] by (simp add: js_string_Some)
  have run: "auth_google_callback ev pr now q st =
      (store_set k (Complete now td None) st,
       (200, popupClosePage ''Authentication successful! You can close this window.'' True),
       [POST token_url (URLSearchParams_toString (exchange_params ev c))])"
    using callback_exchange_ok [OF assms(1) kn tc ex, of now] assms(2)
    by (simp add: js_string_Some)
  then have got: "store_get (fst (auth_google_callback ev pr now q st)) k = Some (Complete now td None)"
    by (simp add: store_get_set)
  from run got status_complete [OF got] show ?thesis by simp
qed

theorem callback_no_id_token_witness:
  "id_token \<lparr>access_token = Some ''T'', refresh_token = None, id_token = None,
             expires_in = Some 3600\<rparr> = None \<and>
   auth_google_callback env0 provider_plain 9
       \<lparr>q_code = Some ''xyz'', q_state = Some ''ab'', q_error = None\<rparr> [(''ab'', Pending 0)]
     = ([(''ab'', Complete 9 \<lparr>access_token = Some ''T'', refresh_token = None, id_token = None,
                             expires_in = Some 3600\<rparr> None)],
        (200, popupClosePage ''Authentication successful! You can close this window.'' True),
        [POST token_url ''code=xyz&client_id=my-app.example&client_secret=s3cret&redirect_uri=http%3A%2F%2Flocalhost%3A3001%2Fauth%2Fgoogle%2Fcallback&grant_type=authorization_code'']) \<and>
   auth_google_status ''ab''
       [(''ab'', Complete 9 \<lparr>access_token = Some ''T'', refresh_token = None, id_token = None,
                             expires_in = Some 3600\<rparr> None)]
     = ([], (200, \<lparr>access_token = Some ''T'', refresh_token = None, id_token = None,
                    expires_in = Some 3600, status = complete, resp_error = None,
                    resp_user = None\<rparr>))"
proof -
  let ?q = "\<lparr>q_code = Some ''xyz'', q_state = Some ''ab'', q_error = None\<rparr>"
  let ?st = "[(''ab'', Pending 0 :: entry)]"
  let ?td = "\<lparr>access_token = Some ''T'', refresh_token = None,
               id_token = None, expires_in = Some 3600\<rparr>"
  have h1: "\<not> truthy (q_error ?q)" by (simp add: truthy_def)
  have h2: "q_state ?q = Some ''ab''" by simp
  have h3: "''ab'' \<noteq> []" by simp
  have h4: "store_get ?st ''ab'' \<noteq> None" by (simp add: store_get_def)
  have h5: "q_code ?q = Some ''xyz''" by simp
  have h6: "''xyz'' \<noteq> []" by simp
  have h7: "axios_post provider_plain token_url
      (URLSearchParams_toString (exchange_params env0 ''xyz'')) = Inr ?td"
    by (simp add: provider_plain_def)
  have h8: "\<not> truthy (id_token ?td)" by (simp add: truthy_def)
  note t = callback_no_id_token [OF h1 h2 h3 h4 h5 h6 h7 h8, of 9]
  from t have run: "auth_google_callback env0 provider_plain 9 ?q ?st =
      (store_set ''ab'' (Complete 9 ?td None) ?st,
       (200, popupClosePage ''Authentication successful! You can close this window.'' True),
       [POST token_url (URLSearchParams_toString (exchange_params env0 ''xyz''))])"
    by (elim conjE)
  from t have st: "auth_google_status ''ab'' (fst (auth_google_callback env0 provider_plain 9 ?q ?st)) =
      (store_delete ''ab'' (fst (auth_google_callback env0 provider_plain 9 ?q ?st)),
       (200, \<lparr>access_token = access_token ?td, refresh_token = refresh_token ?td,
              id_token = id_token ?td, expires_in = expires_in ?td,
              status = complete, resp_error = None, resp_user = None\<rparr>))"
    by (elim conjE)
  have s: "store_set ''ab'' (Complete 9 ?td None) ?st = [(''ab'', Complete 9 ?td None)]"
    by (simp add: store_set_def)
  from run s have r1: "auth_google_callback env0 provider_plain 9 ?q ?st =
      ([(''ab'', Complete 9 ?td None)],
       (200, popupClosePage ''Authentication successful! You can close this window.'' True),
       [POST token_url ''code=xyz&client_id=my-app.example&client_secret=s3cret&redirect_uri=http%3A%2F%2Flocalhost%3A3001%2Fauth%2Fgoogle%2Fcallback&grant_type=authorization_code''])"
    by (simp add: exchange_body_example)
  from st r1 have r2: "auth_google_status ''ab'' [(''ab'', Complete 9 ?td None)]
     = ([], (200, \<lparr>access_token = Some ''T'', refresh_token = None, id_token = None,
                    expires_in = Some 3600, status = complete, resp_error = None,
                    resp_user = None\<rparr>))"
    by (simp add: store_delete_def)
  from r1 r2 show ?thesis by simp
qed

text \<open>
  Claim C9 (createdAt is reset). A callback for a known state replaces the whole record
  under it: the new record is terminal, its \<^verbatim>\<open>createdAt\<close> is the time of the callback
  and not that of the record it replaces, and it is the same whatever the store held
  before. So the record survives every sweep at a time \<open>t\<close> with
  \<open>t - now \<le> AUTH_TTL_MS\<close> and is readable by status there (it is gone after a sweep
  with \<open>t - now > AUTH_TTL_MS\<close>): the window is a full TTL counted from the callback.
  A sweep at a time more than one TTL after the replaced record was created, but within
  one TTL of the callback, would have deleted the old record and keeps the new one: the
  session lives in the store longer than one TTL from its start.
\<close>

theorem callback_resets_createdAt:
  assumes "store_inv st" and "q_state q = Some k" and "k \<noteq> []" and "store_get st k = Some old"
  shows "\<exists>e'. fst (auth_google_callback ev pr now q st) = store_set k e' st \<and>
              store_get (fst (auth_google_callback ev pr now q st)) k = Some e' \<and>
              is_terminal e' \<and> createdAt e' = now \<and>
              (\<forall>st2. store_get st2 k \<noteq> None \<longrightarrow>
                 store_get (fst (auth_google_callback ev pr now q st2)) k = Some e') \<and>
              (\<forall>t. t - now \<le> AUTH_TTL_MS \<longrightarrow>
                 store_get (sweep t (fst (auth_google_callback ev pr now q st))) k = Some e' \<and>
                 fst (snd (auth_google_status k (sweep t (fst (auth_google_callback ev pr now q st))))) = 200 \<and>
                 (status (snd (snd (auth_google_status k
                     (sweep t (fst (auth_google_callback ev pr now q st)))))) = complete \<or>
                  status (snd (snd (auth_google_status k
                     (sweep t (fst (auth_google_callback ev pr now q st)))))) = error)) \<and>
              (\<forall>t. t - now > AUTH_TTL_MS \<longrightarrow>
                 store_get (sweep t (fst (auth_google_callback ev pr now q st))) k = None) \<and>
              (\<forall>t. t - createdAt old > AUTH_TTL_MS \<and> t - now \<le> AUTH_TTL_MS \<longrightarrow>
                 store_get (sweep t st) k = None \<and>
                 store_get (sweep t (fst (auth_google_callback ev pr now q st))) k = Some e')"
proof -
  let ?e = "written ev pr now q"
  let ?st' = "fst (auth_google_callback ev pr now q st)"
  from assms(2-4) have kn: "known st (q_state q)" by (simp add: known_Some)
  with assms(2) have run: "?st' = store_set k ?e st"
    by (simp add: callback_known js_string_Some)
  then have got: "store_get ?st' k = Some ?e" by (simp add: store_get_set)
  have trm: "is_terminal ?e" and stamp: "createdAt ?e = now"
    using written_terminal [of ev pr now q] by simp_all
  from assms(1) run have inv: "store_inv ?st'" by (simp add: store_inv_set)
  have indep: "store_get (fst (auth_google_callback ev pr now q st2)) k = Some ?e"
    if "store_get st2 k \<noteq> None" for st2
  proof -
    from that assms(2,3) have "known st2 (q_state q)" by (simp add: known_Some)
    with assms(2) show ?thesis by (simp add: callback_known js_string_Some store_get_set)
  qed
  have keep: "store_get (sweep t ?st') k = Some ?e" if "t - now \<le> AUTH_TTL_MS" for t
    using that got stamp by (simp add: store_get_sweep [OF inv] expired_def)
  have drop: "store_get (sweep t ?st') k = None" if "t - now > AUTH_TTL_MS" for t
    using that got stamp by (simp add: store_get_sweep [OF inv] expired_def)
  have old: "store_get (sweep t st) k = None" if "t - createdAt old > AUTH_TTL_MS" for t
    using that assms(4) by (simp add: store_get_sweep [OF assms(1)] expired_def)
  have read: "fst (snd (auth_google_status k (sweep t ?st'))) = 200 \<and>
      (status (snd (snd (auth_google_status k (sweep t ?st')))) = complete \<or>
       status (snd (snd (auth_google_status k (sweep t ?st')))) = error)"
    if "t - now \<le> AUTH_TTL_MS" for t
    using status_terminal [OF keep [OF that] trm] .
  show ?thesis
    using run got trm stamp indep keep drop old read
    by (intro exI [of _ ?e]) blast
qed

theorem callback_resets_createdAt_witness:
  "store_inv [(''ab'', Pending 0)] \<and>
   store_get [(''ab'', Pending 0)] ''ab'' = Some (Pending 0) \<and>
   (400000::int) - createdAt (Pending 0) > AUTH_TTL_MS \<and> (400000::int) - 200000 \<le> AUTH_TTL_MS \<and>
   store_get (sweep 400000 [(''ab'', Pending 0)]) ''ab'' = None \<and>
   (\<exists>e'. createdAt e' = 200000 \<and> is_terminal e' \<and>
      store_get (sweep 400000
         (fst (auth_google_callback env0 provider_plain 200000
                 \<lparr>q_code = None, q_state = Some ''ab'', q_error = Some ''access_denied''\<rparr>
                 [(''ab'', Pending 0)]))) ''ab'' = Some e')"
proof -
  let ?q = "\<lparr>q_code = None, q_state = Some ''ab'', q_error = Some ''access_denied''\<rparr>"
  let ?st = "[(''ab'', Pending 0 :: entry)]"
  have h1: "store_inv ?st" by (simp add: store_inv_def)
  have h2: "q_state ?q = Some ''ab''" by simp
  have h3: "''ab'' \<noteq> []" by simp
  have h4: "store_get ?st ''ab'' = Some (Pending 0)" by (simp add: store_get_def)
  have w: "(400000::int) - createdAt (Pending 0) > AUTH_TTL_MS \<and> (400000::int) - 200000 \<le> AUTH_TTL_MS"
    by (simp add: AUTH_TTL_MS_def)
  from callback_resets_createdAt [OF h1 h2 h3 h4, of env0 provider_plain 200000]
  obtain e' where e': "is_terminal e'" "createdAt e' = 200000"
    and win: "\<forall>t. t - createdAt (Pending 0) > AUTH_TTL_MS \<and> t - 200000 \<le> AUTH_TTL_MS \<longrightarrow>
       store_get (sweep t ?st) ''ab'' = None \<and>
       store_get (sweep t (fst (auth_google_callback env0 provider_plain 200000 ?q ?st))) ''ab'' = Some e'"
    by blast
  from win w have "store_get (sweep 400000 ?st) ''ab'' = None \<and>
       store_get (sweep 400000 (fst (auth_google_callback env0 provider_plain 200000 ?q ?st))) ''ab'' = Some e'"
    by blast
  with e' h1 h4 w show ?thesis by blast
qed
section \<open>The poll controller\<close>

text \<open>
  The steps of the controller, one shape each: a tick inside the budget sends a check,
  a tick past the budget reports the timeout and clears the timer, an answer that
  continues the polling changes nothing, and an answer with a result clears the timer
  and shows the result.
\<close>

lemma checks_simps:
  "checks (c\<lparr>pollCount := n\<rparr>) = checks c"
  "checks (c\<lparr>elapsed := t\<rparr>) = checks c"
  "checks (c\<lparr>pollInterval := b\<rparr>) = checks c"
  "checks (c\<lparr>inflight := xs\<rparr>) = checks c"
  "checks (c\<lparr>authState := a\<rparr>) = checks c"
  "checks (c\<lparr>events := events c @ [StatusCheck s t]\<rparr>) = Suc (checks c)"
  "checks (c\<lparr>events := events c @ [SetAuthState a]\<rparr>) = checks c"
  by (simp_all add: checks_def)

lemma tick_send_within:
  assumes "pollCount c < MAX_POLL_ATTEMPTS"
  shows "tick_send state c =
           c\<lparr>pollCount := Suc (pollCount c), elapsed := elapsed c + POLL_INTERVAL_MS,
             events := events c @ [StatusCheck state (elapsed c + POLL_INTERVAL_MS)],
             inflight := inflight c @ [checks c]\<rparr>"
  using assms by (simp add: tick_send_def Let_def checks_def)

lemma tick_send_exhausted:
  assumes "pollCount c \<ge> MAX_POLL_ATTEMPTS"
  shows "tick_send state c =
           c\<lparr>pollCount := 0, elapsed := elapsed c + POLL_INTERVAL_MS, pollInterval := False,
             authState := timed_out, events := events c @ [SetAuthState timed_out]\<rparr>"
  using assms by (simp add: tick_send_def Let_def stopPolling_def setAuthState_def timed_out_def)

lemma tick_settle_continues: "continues out \<Longrightarrow> tick_settle out c = c"
  by (auto simp: tick_settle_def continues_def split: settled.splits)

lemma tick_settle_result:
  assumes "status r = complete \<or> status r = error"
  shows "tick_settle (Resolved r) c =
           c\<lparr>pollInterval := False, pollCount := 0, authState := shown_for r,
             events := events c @ [SetAuthState (shown_for r)]\<rparr>"
  using assms
  by (auto simp: tick_settle_def handleAuthComplete_def stopPolling_def setAuthState_def
      shown_for_def)

lemma tick_settle_not_found:
  assumes "status r = not_found"
  shows "tick_settle (Resolved r) c =
           c\<lparr>pollInterval := False, pollCount := 0, authState := shown_for r,
             events := events c @ [SetAuthState (shown_for r)]\<rparr>"
  using assms
  by (simp add: tick_settle_def stopPolling_def setAuthState_def shown_for_def)

lemma tick_settle_cases:
  "tick_settle out c = c \<or>
   (\<exists>a. tick_settle out c =
      c\<lparr>pollInterval := False, pollCount := 0, authState := a, events := events c @ [SetAuthState a]\<rparr>)"
proof (cases out)
  case (Rejected m)
  then show ?thesis by (simp add: tick_settle_def)
next
  case (Resolved r)
  show ?thesis
  proof (cases "status r")
    case pending
    with Resolved show ?thesis by (simp add: tick_settle_def)
  next
    case complete
    with Resolved tick_settle_result [of r c] show ?thesis by auto
  next
    case error
    with Resolved tick_settle_result [of r c] show ?thesis by auto
  next
    case not_found
    with Resolved tick_settle_not_found [of r c] show ?thesis by auto
  qed
qed

text \<open>The five shapes of a step.\<close>

lemma poll_step_cases:
  "poll_step stub state s c = c \<or>
   (\<exists>xs. poll_step stub state s c = c\<lparr>inflight := xs\<rparr>) \<or>
   (\<exists>xs a. poll_step stub state s c =
      c\<lparr>inflight := xs, pollInterval := False, pollCount := 0, authState := a,
        events := events c @ [SetAuthState a]\<rparr>) \<or>
   (s = Tick \<and> pollInterval c \<and> pollCount c \<ge> MAX_POLL_ATTEMPTS \<and>
    poll_step stub state s c =
      c\<lparr>pollCount := 0, elapsed := elapsed c + POLL_INTERVAL_MS, pollInterval := False,
        authState := timed_out, events := events c @ [SetAuthState timed_out]\<rparr>) \<or>
   (s = Tick \<and> pollInterval c \<and> pollCount c < MAX_POLL_ATTEMPTS \<and>
    poll_step stub state s c =
      c\<lparr>pollCount := Suc (pollCount c), elapsed := elapsed c + POLL_INTERVAL_MS,
        events := events c @ [StatusCheck state (elapsed c + POLL_INTERVAL_MS)],
        inflight := inflight c @ [checks c]\<rparr>)"
proof (cases s)
  case Tick
  show ?thesis
  proof (cases "pollInterval c")
    case False
    with Tick show ?thesis by (simp add: poll_step_def)
  next
    case armed: True
    show ?thesis
    proof (cases "pollCount c < MAX_POLL_ATTEMPTS")
      case True
      with Tick armed tick_send_within [OF True, of state] show ?thesis
        by (simp add: poll_step_def)
    next
      case False
      then have ge: "pollCount c \<ge> MAX_POLL_ATTEMPTS" by simp
      with Tick armed tick_send_exhausted [OF ge, of state] show ?thesis
        by (simp add: poll_step_def)
    qed
  qed
next
  case (Answer i)
  show ?thesis
  proof (cases "i \<in> set (inflight c)")
    case False
    with Answer show ?thesis by (simp add: poll_step_def)
  next
    case True
    let ?c = "c\<lparr>inflight := removeAll i (inflight c)\<rparr>"
    from Answer True have st: "poll_step stub state s c = tick_settle (checkAuthStatus (stub i)) ?c"
      by (simp add: poll_step_def)
    from tick_settle_cases [of "checkAuthStatus (stub i)" ?c] show ?thesis
    proof
      assume "tick_settle (checkAuthStatus (stub i)) ?c = ?c"
      with st show ?thesis by auto
    next
      assume "\<exists>a. tick_settle (checkAuthStatus (stub i)) ?c =
          ?c\<lparr>pollInterval := False, pollCount := 0, authState := a, events := events ?c @ [SetAuthState a]\<rparr>"
      then obtain a where "tick_settle (checkAuthStatus (stub i)) ?c =
          ?c\<lparr>pollInterval := False, pollCount := 0, authState := a, events := events ?c @ [SetAuthState a]\<rparr>"
        by blast
      with st have "poll_step stub state s c =
          c\<lparr>inflight := removeAll i (inflight c), pollInterval := False, pollCount := 0,
            authState := a, events := events c @ [SetAuthState a]\<rparr>"
        by simp
      then show ?thesis by blast
    qed
  qed
qed

text \<open>The invariant of every run, and what a cleared and an armed timer say about it.\<close>

lemma poll_inv_same:
  assumes "poll_inv state c"
    and "filter is_check (events c') = filter is_check (events c)"
    and "pollInterval c' \<Longrightarrow> pollInterval c \<and> pollCount c' = pollCount c \<and> elapsed c' = elapsed c"
  shows "poll_inv state c'"
proof -
  from assms(2) have ch: "checks c' = checks c" by (simp add: checks_def)
  from assms(1) have "checks c \<le> MAX_POLL_ATTEMPTS"
    and "pollInterval c \<Longrightarrow> pollCount c = checks c \<and> elapsed c = checks c * POLL_INTERVAL_MS"
    and "filter is_check (events c) =
        map (\<lambda>i. StatusCheck state ((i + 1) * POLL_INTERVAL_MS)) [0..<checks c]"
    by (simp_all add: poll_inv_def)
  with assms(2,3) show ?thesis
    unfolding poll_inv_def ch by auto
qed

lemma poll_inv_step:
  assumes "poll_inv state c"
  shows "poll_inv state (poll_step stub state s c)"
proof -
  from poll_step_cases [of stub state s c] show ?thesis
  proof (elim disjE exE conjE)
    assume e: "poll_step stub state s c = c"
    show ?thesis unfolding e by (rule assms)
  next
    fix xs assume e: "poll_step stub state s c = c\<lparr>inflight := xs\<rparr>"
    show ?thesis unfolding e by (rule poll_inv_same [OF assms]) simp_all
  next
    fix xs a
    assume e: "poll_step stub state s c =
      c\<lparr>inflight := xs, pollInterval := False, pollCount := 0, authState := a,
        events := events c @ [SetAuthState a]\<rparr>"
    show ?thesis unfolding e by (rule poll_inv_same [OF assms]) simp_all
  next
    assume e: "poll_step stub state s c =
      c\<lparr>pollCount := 0, elapsed := elapsed c + POLL_INTERVAL_MS, pollInterval := False,
        authState := timed_out, events := events c @ [SetAuthState timed_out]\<rparr>"
    show ?thesis unfolding e by (rule poll_inv_same [OF assms]) simp_all
  next
    assume a: "pollInterval c" and lt: "pollCount c < MAX_POLL_ATTEMPTS"
      and st: "poll_step stub state s c =
        c\<lparr>pollCount := Suc (pollCount c), elapsed := elapsed c + POLL_INTERVAL_MS,
          events := events c @ [StatusCheck state (elapsed c + POLL_INTERVAL_MS)],
          inflight := inflight c @ [checks c]\<rparr>"
    let ?c' = "poll_step stub state s c"
    from assms a have pc: "pollCount c = checks c" and el: "elapsed c = checks c * POLL_INTERVAL_MS"
      and ev: "filter is_check (events c) =
        map (\<lambda>i. StatusCheck state ((i + 1) * POLL_INTERVAL_MS)) [0..<checks c]"
      by (simp_all add: poll_inv_def)
    have fe: "filter is_check (events ?c') =
        filter is_check (events c) @ [StatusCheck state (elapsed c + POLL_INTERVAL_MS)]"
      by (simp add: st)
    then have ch: "checks ?c' = Suc (checks c)"
      by (simp add: checks_def)
    have "filter is_check (events c) @ [StatusCheck state (elapsed c + POLL_INTERVAL_MS)] =
        map (\<lambda>i. StatusCheck state ((i + 1) * POLL_INTERVAL_MS)) [0..<checks c] @
        [StatusCheck state ((checks c + 1) * POLL_INTERVAL_MS)]"
      by (simp only: ev [symmetric] el) (simp add: algebra_simps)
    also have "\<dots> = map (\<lambda>i. StatusCheck state ((i + 1) * POLL_INTERVAL_MS)) [0..<Suc (checks c)]"
      by simp
    finally have ev': "filter is_check (events ?c') =
        map (\<lambda>i. StatusCheck state ((i + 1) * POLL_INTERVAL_MS)) [0..<checks ?c']"
      by (simp only: fe ch)
    have le: "checks ?c' \<le> MAX_POLL_ATTEMPTS"
      using lt pc by (simp add: ch)
    have pc': "pollCount ?c' = checks ?c'"
      unfolding ch by (simp add: st pc)
    have el': "elapsed ?c' = checks ?c' * POLL_INTERVAL_MS"
      unfolding ch by (simp add: st el)
    from le pc' el' ev' show ?thesis
      unfolding poll_inv_def by blast
  qed
qed

lemma poll_inv_run: "poll_inv state c \<Longrightarrow> poll_inv state (poll_run stub state ss c)"
  by (induction ss arbitrary: c) (simp_all add: poll_inv_step)

lemma poll_inv_start:
  "pollCount c0 = 0 \<Longrightarrow> events c0 = [] \<Longrightarrow> poll_inv state (startPolling c0)"
  by (simp add: poll_inv_def startPolling_def setAuthState_def checks_def)

lemma poll_run_append:
  "poll_run stub state (xs @ ys) c = poll_run stub state ys (poll_run stub state xs c)"
  by (induction xs arbitrary: c) simp_all

text \<open>A cleared timer stays cleared, and no check is sent any more.\<close>

lemma stopped_step:
  assumes "\<not> pollInterval c"
  shows "\<not> pollInterval (poll_step stub state s c) \<and> checks (poll_step stub state s c) = checks c"
proof -
  from poll_step_cases [of stub state s c] assms
  have "\<not> pollInterval (poll_step stub state s c) \<and>
      filter is_check (events (poll_step stub state s c)) = filter is_check (events c)"
    by (elim disjE exE conjE) simp_all
  then show ?thesis by (simp add: checks_def)
qed

lemma stopped_run:
  "\<not> pollInterval c \<Longrightarrow>
     \<not> pollInterval (poll_run stub state ss c) \<and> checks (poll_run stub state ss c) = checks c"
proof (induction ss arbitrary: c)
  case Nil
  then show ?case by simp
next
  case (Cons s ss)
  from stopped_step [OF Cons.prems, of stub state s]
  have a: "\<not> pollInterval (poll_step stub state s c)"
    and b: "checks (poll_step stub state s c) = checks c" by simp_all
  from Cons.IH [OF a] b show ?case by simp
qed

text \<open>While the timer is armed, the counter counts the ticks.\<close>

lemma armed_step:
  assumes "pollInterval (poll_step stub state s c)"
  shows "pollInterval c \<and>
         pollCount (poll_step stub state s c) = pollCount c + (if s = Tick then 1 else 0)"
proof (cases s)
  case Tick
  show ?thesis
  proof (cases "pollInterval c")
    case False
    with assms Tick show ?thesis by (simp add: poll_step_def)
  next
    case armed: True
    show ?thesis
    proof (cases "pollCount c < MAX_POLL_ATTEMPTS")
      case True
      with Tick armed show ?thesis
        by (simp add: poll_step_def tick_send_within)
    next
      case False
      then have "pollCount c \<ge> MAX_POLL_ATTEMPTS" by simp
      with assms Tick armed show ?thesis
        by (simp add: poll_step_def tick_send_exhausted)
    qed
  qed
next
  case (Answer i)
  show ?thesis
  proof (cases "i \<in> set (inflight c)")
    case False
    with assms Answer show ?thesis by (simp add: poll_step_def)
  next
    case True
    let ?c = "c\<lparr>inflight := removeAll i (inflight c)\<rparr>"
    from Answer True have st: "poll_step stub state s c = tick_settle (checkAuthStatus (stub i)) ?c"
      by (simp add: poll_step_def)
    from tick_settle_cases [of "checkAuthStatus (stub i)" ?c] show ?thesis
    proof
      assume "tick_settle (checkAuthStatus (stub i)) ?c = ?c"
      with st assms Answer show ?thesis by simp
    next
      assume "\<exists>a. tick_settle (checkAuthStatus (stub i)) ?c =
          ?c\<lparr>pollInterval := False, pollCount := 0, authState := a, events := events ?c @ [SetAuthState a]\<rparr>"
      with st assms show ?thesis by auto
    qed
  qed
qed

lemma armed_run:
  "pollInterval (poll_run stub state ss c) \<Longrightarrow>
     pollInterval c \<and> pollCount (poll_run stub state ss c) = pollCount c + ticks ss"
proof (induction ss arbitrary: c)
  case Nil
  then show ?case by (simp add: ticks_def)
next
  case (Cons s ss)
  from Cons.prems have "pollInterval (poll_run stub state ss (poll_step stub state s c))" by simp
  from Cons.IH [OF this]
  have a: "pollInterval (poll_step stub state s c)"
    and b: "pollCount (poll_run stub state ss (poll_step stub state s c)) =
        pollCount (poll_step stub state s c) + ticks ss" by simp_all
  from armed_step [OF a] b show ?case by (auto simp: ticks_def)
qed

lemma in_turn_Suc: "in_turn (Suc n) = in_turn n @ [Tick, Answer n]"
  by (simp add: in_turn_def)

lemma start_fields:
  assumes "pollCount c0 = 0" and "events c0 = []" and "inflight c0 = []"
  shows "pollInterval (startPolling c0)" and "pollCount (startPolling c0) = 0"
    and "elapsed (startPolling c0) = 0" and "inflight (startPolling c0) = []"
    and "events (startPolling c0) = [SetAuthState ((authState c0)\<lparr>polling := True\<rparr>)]"
    and "checks (startPolling c0) = 0"
  using assms by (simp_all add: startPolling_def setAuthState_def checks_def)

lemma advance_0: "advance state 0 c = c"
  by (simp add: advance_def)

lemma advance_fields:
  "pollInterval (advance state k c) = pollInterval c"
  "pollCount (advance state k c) = pollCount c + k"
  "elapsed (advance state k c) = elapsed c + k * POLL_INTERVAL_MS"
  "authState (advance state k c) = authState c"
  "inflight (advance state k c) = inflight c"
  by (simp_all add: advance_def)

lemma checks_advance: "checks (advance state k c) = checks c + k"
  by (simp add: advance_def checks_def filter_map comp_def)

lemma advance_Suc: "advance state (Suc 0) (advance state k c) = advance state (Suc k) c"
  by (simp add: advance_def algebra_simps)

lemma answer_continues:
  assumes "i \<in> set (inflight c)" and "continues (checkAuthStatus (stub i))"
  shows "poll_step stub state (Answer i) c = c\<lparr>inflight := removeAll i (inflight c)\<rparr>"
  using assms by (simp add: poll_step_def tick_settle_continues)

lemma answer_result:
  assumes "i \<in> set (inflight c)" and "checkAuthStatus (stub i) = Resolved r"
    and "status r = complete \<or> status r = error"
  shows "poll_step stub state (Answer i) c =
           c\<lparr>inflight := removeAll i (inflight c), pollInterval := False, pollCount := 0,
             authState := shown_for r, events := events c @ [SetAuthState (shown_for r)]\<rparr>"
  using assms by (simp add: poll_step_def tick_settle_result)

lemma tick_within:
  assumes "pollInterval c" and "pollCount c < MAX_POLL_ATTEMPTS"
  shows "poll_step stub state Tick c =
           c\<lparr>pollCount := Suc (pollCount c), elapsed := elapsed c + POLL_INTERVAL_MS,
             events := events c @ [StatusCheck state (elapsed c + POLL_INTERVAL_MS)],
             inflight := inflight c @ [checks c]\<rparr>"
  using assms by (simp add: poll_step_def tick_send_within)

lemma tick_exhausted:
  assumes "pollInterval c" and "pollCount c \<ge> MAX_POLL_ATTEMPTS"
  shows "poll_step stub state Tick c =
           c\<lparr>pollCount := 0, elapsed := elapsed c + POLL_INTERVAL_MS, pollInterval := False,
             authState := timed_out, events := events c @ [SetAuthState timed_out]\<rparr>"
  using assms by (simp add: poll_step_def tick_send_exhausted)

text \<open>One round of the schedule in which every call settles before the next tick.\<close>

lemma round_continues:
  assumes "pollInterval c" and "inflight c = []" and "pollCount c < MAX_POLL_ATTEMPTS"
    and "continues (checkAuthStatus (stub (checks c)))"
  shows "poll_run stub state [Tick, Answer (checks c)] c = advance state (Suc 0) c"
proof -
  let ?c1 = "poll_step stub state Tick c"
  have c1: "?c1 = c\<lparr>pollCount := Suc (pollCount c), elapsed := elapsed c + POLL_INTERVAL_MS,
      events := events c @ [StatusCheck state (elapsed c + POLL_INTERVAL_MS)],
      inflight := [checks c]\<rparr>"
    using tick_within [OF assms(1,3), of stub state] assms(2) by simp
  then have "checks c \<in> set (inflight ?c1)" by simp
  from answer_continues [of "checks c" ?c1 stub state, OF this assms(4)]
  have "poll_step stub state (Answer (checks c)) ?c1 = ?c1\<lparr>inflight := []\<rparr>"
    by (simp add: c1)
  also have "\<dots> = advance state (Suc 0) c"
    using assms(2) by (simp add: c1 advance_def)
  finally show ?thesis by simp
qed

lemma round_result:
  assumes "pollInterval c" and "inflight c = []" and "pollCount c < MAX_POLL_ATTEMPTS"
    and "checkAuthStatus (stub (checks c)) = Resolved r" and "status r = complete \<or> status r = error"
  shows "poll_run stub state [Tick, Answer (checks c)] c =
           (advance state (Suc 0) c)\<lparr>pollInterval := False, pollCount := 0,
              authState := shown_for r,
              events := events (advance state (Suc 0) c) @ [SetAuthState (shown_for r)]\<rparr>"
proof -
  let ?c1 = "poll_step stub state Tick c"
  have c1: "?c1 = c\<lparr>pollCount := Suc (pollCount c), elapsed := elapsed c + POLL_INTERVAL_MS,
      events := events c @ [StatusCheck state (elapsed c + POLL_INTERVAL_MS)],
      inflight := [checks c]\<rparr>"
    using tick_within [OF assms(1,3), of stub state] assms(2) by simp
  then have "checks c \<in> set (inflight ?c1)" by simp
  from answer_result [of "checks c" ?c1 stub r state, OF this assms(4,5)]
  have "poll_step stub state (Answer (checks c)) ?c1 =
      ?c1\<lparr>inflight := [], pollInterval := False, pollCount := 0, authState := shown_for r,
          events := events ?c1 @ [SetAuthState (shown_for r)]\<rparr>"
    by (simp add: c1)
  also have "\<dots> = (advance state (Suc 0) c)\<lparr>pollInterval := False, pollCount := 0,
      authState := shown_for r,
      events := events (advance state (Suc 0) c) @ [SetAuthState (shown_for r)]\<rparr>"
    using assms(2) by (simp add: c1 advance_def)
  finally show ?thesis by simp
qed

lemma rounds_continue:
  assumes "pollInterval c" and "inflight c = []" and "pollCount c = 0" and "checks c = 0"
    and "n \<le> MAX_POLL_ATTEMPTS" and "\<forall>i<n. continues (checkAuthStatus (stub i))"
  shows "poll_run stub state (in_turn n) c = advance state n c"
  using assms(5,6)
proof (induction n)
  case 0
  then show ?case by (simp add: in_turn_def advance_0)
next
  case (Suc n)
  let ?c = "advance state n c"
  from Suc have ih: "poll_run stub state (in_turn n) c = ?c" by simp
  have ch: "checks ?c = n" by (simp add: checks_advance assms(4))
  have "poll_run stub state [Tick, Answer (checks ?c)] ?c = advance state (Suc 0) ?c"
  proof (rule round_continues)
    show "pollInterval ?c" by (simp add: advance_fields assms(1))
    show "inflight ?c = []" by (simp add: advance_fields assms(2))
    show "pollCount ?c < MAX_POLL_ATTEMPTS" using Suc.prems by (simp add: advance_fields assms(3))
    show "continues (checkAuthStatus (stub (checks ?c)))" using Suc.prems by (simp add: ch)
  qed
  then have r: "poll_run stub state [Tick, Answer n] ?c = advance state (Suc 0) ?c"
    unfolding ch .
  show ?case
    by (simp only: in_turn_Suc poll_run_append ih r advance_Suc)
qed

text \<open>With the timer cleared and no call in flight nothing happens any more.\<close>

lemma quiet_step:
  "\<not> pollInterval c \<Longrightarrow> inflight c = [] \<Longrightarrow> poll_step stub state s c = c"
  by (cases s) (simp_all add: poll_step_def)

lemma quiet_run:
  "\<not> pollInterval c \<Longrightarrow> inflight c = [] \<Longrightarrow> poll_run stub state ss c = c"
  by (induction ss) (simp_all add: quiet_step)

text \<open>The run in which every call settles before the next tick, to its end.\<close>

lemma events_advance_start:
  assumes "pollCount c0 = 0" and "events c0 = []" and "inflight c0 = []"
  shows "events (advance state k (startPolling c0)) =
           SetAuthState ((authState c0)\<lparr>polling := True\<rparr>) #
           map (\<lambda>i. StatusCheck state ((i + 1) * 1000)) [0..<k]"
  using start_fields [OF assms] by (simp add: advance_def POLL_INTERVAL_MS_def)

lemma surfaced_checks:
  "surfaced (c\<lparr>events := SetAuthState a # map (\<lambda>i. StatusCheck state (f i)) xs @ [SetAuthState b]\<rparr>) = [a, b]"
  by (induction xs) (simp_all add: surfaced_def)

lemma checks_checks:
  "checks (c\<lparr>events := SetAuthState a # map (\<lambda>i. StatusCheck state (f i)) xs @ [SetAuthState b]\<rparr>) = length xs"
  by (induction xs) (simp_all add: checks_def)

lemma run_in_turn_result:
  assumes "pollCount c0 = 0" and "events c0 = []" and "inflight c0 = []"
    and "n < MAX_POLL_ATTEMPTS" and "\<forall>i<n. continues (checkAuthStatus (stub i))"
    and "checkAuthStatus (stub n) = Resolved r" and "status r = complete \<or> status r = error"
  shows "poll_run stub state (in_turn (Suc n) @ rest) (startPolling c0) =
           (advance state (Suc n) (startPolling c0))\<lparr>pollInterval := False, pollCount := 0,
              authState := shown_for r,
              events := events (advance state (Suc n) (startPolling c0)) @ [SetAuthState (shown_for r)]\<rparr>"
proof -
  note sf = start_fields [OF assms(1-3)]
  let ?c = "advance state n (startPolling c0)"
  have many: "poll_run stub state (in_turn n) (startPolling c0) = ?c"
    using assms(4,5) sf by (intro rounds_continue) simp_all
  have ch: "checks ?c = n" by (simp add: checks_advance sf)
  have "poll_run stub state [Tick, Answer (checks ?c)] ?c =
      (advance state (Suc 0) ?c)\<lparr>pollInterval := False, pollCount := 0, authState := shown_for r,
         events := events (advance state (Suc 0) ?c) @ [SetAuthState (shown_for r)]\<rparr>"
  proof (rule round_result)
    show "pollInterval ?c" by (simp add: advance_fields sf)
    show "inflight ?c = []" by (simp add: advance_fields sf)
    show "pollCount ?c < MAX_POLL_ATTEMPTS" using assms(4) by (simp add: advance_fields sf)
    show "checkAuthStatus (stub (checks ?c)) = Resolved r" using assms(6) by (simp add: ch)
    show "status r = complete \<or> status r = error" by (rule assms(7))
  qed
  then have last: "poll_run stub state [Tick, Answer n] ?c =
      (advance state (Suc n) (startPolling c0))\<lparr>pollInterval := False, pollCount := 0,
         authState := shown_for r,
         events := events (advance state (Suc n) (startPolling c0)) @ [SetAuthState (shown_for r)]\<rparr>"
    unfolding ch advance_Suc .
  let ?d = "(advance state (Suc n) (startPolling c0))\<lparr>pollInterval := False, pollCount := 0,
         authState := shown_for r,
         events := events (advance state (Suc n) (startPolling c0)) @ [SetAuthState (shown_for r)]\<rparr>"
  have "poll_run stub state rest ?d = ?d"
    by (rule quiet_run) (simp_all add: advance_fields sf)
  then show ?thesis
    by (simp only: in_turn_Suc poll_run_append many last)
qed

lemma run_in_turn_exhausted:
  assumes "pollCount c0 = 0" and "events c0 = []" and "inflight c0 = []"
    and "\<forall>i<MAX_POLL_ATTEMPTS. continues (checkAuthStatus (stub i))"
  shows "poll_run stub state (in_turn MAX_POLL_ATTEMPTS @ Tick # rest) (startPolling c0) =
           (advance state MAX_POLL_ATTEMPTS (startPolling c0))\<lparr>pollCount := 0,
              elapsed := elapsed (advance state MAX_POLL_ATTEMPTS (startPolling c0)) + POLL_INTERVAL_MS,
              pollInterval := False, authState := timed_out,
              events := events (advance state MAX_POLL_ATTEMPTS (startPolling c0)) @ [SetAuthState timed_out]\<rparr>"
proof -
  note sf = start_fields [OF assms(1-3)]
  let ?c = "advance state MAX_POLL_ATTEMPTS (startPolling c0)"
  have many: "poll_run stub state (in_turn MAX_POLL_ATTEMPTS) (startPolling c0) = ?c"
    using assms(4) sf by (intro rounds_continue) simp_all
  have tk: "poll_step stub state Tick ?c =
      ?c\<lparr>pollCount := 0, elapsed := elapsed ?c + POLL_INTERVAL_MS, pollInterval := False,
         authState := timed_out, events := events ?c @ [SetAuthState timed_out]\<rparr>"
    by (rule tick_exhausted) (simp_all add: advance_fields sf)
  let ?d = "?c\<lparr>pollCount := 0, elapsed := elapsed ?c + POLL_INTERVAL_MS, pollInterval := False,
         authState := timed_out, events := events ?c @ [SetAuthState timed_out]\<rparr>"
  have "poll_run stub state rest ?d = ?d"
    by (rule quiet_run) (simp_all add: advance_fields sf)
  then show ?thesis
    by (simp only: poll_run_append many poll_run.simps tk)
qed

lemma polled_result:
  assumes "pollCount c0 = 0" and "events c0 = []" and "inflight c0 = []"
    and "n < MAX_POLL_ATTEMPTS" and "\<forall>i<n. continues (checkAuthStatus (stub i))"
    and "checkAuthStatus (stub n) = Resolved r" and "status r = complete \<or> status r = error"
  shows "events (poll_run stub state (in_turn (Suc n) @ rest) (startPolling c0)) =
           SetAuthState ((authState c0)\<lparr>polling := True\<rparr>) #
           map (\<lambda>i. StatusCheck state ((i + 1) * 1000)) [0..<Suc n] @ [SetAuthState (shown_for r)]"
    and "checks (poll_run stub state (in_turn (Suc n) @ rest) (startPolling c0)) = Suc n"
    and "surfaced (poll_run stub state (in_turn (Suc n) @ rest) (startPolling c0)) =
           [(authState c0)\<lparr>polling := True\<rparr>, shown_for r]"
    and "authState (poll_run stub state (in_turn (Suc n) @ rest) (startPolling c0)) = shown_for r"
    and "\<not> pollInterval (poll_run stub state (in_turn (Suc n) @ rest) (startPolling c0))"
proof -
  let ?R = "poll_run stub state (in_turn (Suc n) @ rest) (startPolling c0)"
  note run = run_in_turn_result [OF assms, of state rest]
  note ev = events_advance_start [OF assms(1-3), of state "Suc n"]
  show e: "events ?R =
      SetAuthState ((authState c0)\<lparr>polling := True\<rparr>) #
      map (\<lambda>i. StatusCheck state ((i + 1) * 1000)) [0..<Suc n] @ [SetAuthState (shown_for r)]"
    by (simp only: run ev) simp
  have c: "?R = ?R\<lparr>events :=
      SetAuthState ((authState c0)\<lparr>polling := True\<rparr>) #
      map (\<lambda>i. StatusCheck state ((i + 1) * 1000)) [0..<Suc n] @ [SetAuthState (shown_for r)]\<rparr>"
    by (simp only: e [symmetric]) simp
  show "checks ?R = Suc n"
    by (subst c) (simp only: checks_checks, simp)
  show "surfaced ?R = [(authState c0)\<lparr>polling := True\<rparr>, shown_for r]"
    by (subst c) (simp only: surfaced_checks)
  show "authState ?R = shown_for r" by (simp add: run)
  show "\<not> pollInterval ?R" by (simp add: run)
qed

lemma polled_exhausted:
  assumes "pollCount c0 = 0" and "events c0 = []" and "inflight c0 = []"
    and "\<forall>i<MAX_POLL_ATTEMPTS. continues (checkAuthStatus (stub i))"
  shows "checks (poll_run stub state (in_turn MAX_POLL_ATTEMPTS @ Tick # rest) (startPolling c0))
           = MAX_POLL_ATTEMPTS"
    and "surfaced (poll_run stub state (in_turn MAX_POLL_ATTEMPTS @ Tick # rest) (startPolling c0)) =
           [(authState c0)\<lparr>polling := True\<rparr>, timed_out]"
    and "authState (poll_run stub state (in_turn MAX_POLL_ATTEMPTS @ Tick # rest) (startPolling c0))
           = timed_out"
    and "\<not> pollInterval (poll_run stub state (in_turn MAX_POLL_ATTEMPTS @ Tick # rest) (startPolling c0))"
proof -
  let ?R = "poll_run stub state (in_turn MAX_POLL_ATTEMPTS @ Tick # rest) (startPolling c0)"
  note run = run_in_turn_exhausted [OF assms, of state rest]
  note ev = events_advance_start [OF assms(1-3), of state MAX_POLL_ATTEMPTS]
  have e: "events ?R =
      SetAuthState ((authState c0)\<lparr>polling := True\<rparr>) #
      map (\<lambda>i. StatusCheck state ((i + 1) * 1000)) [0..<MAX_POLL_ATTEMPTS] @ [SetAuthState timed_out]"
    by (simp only: run ev) simp
  have c: "?R = ?R\<lparr>events :=
      SetAuthState ((authState c0)\<lparr>polling := True\<rparr>) #
      map (\<lambda>i. StatusCheck state ((i + 1) * 1000)) [0..<MAX_POLL_ATTEMPTS] @ [SetAuthState timed_out]\<rparr>"
    by (simp only: e [symmetric]) simp
  show "checks ?R = MAX_POLL_ATTEMPTS"
    by (subst c) (simp only: checks_checks, simp)
  show "surfaced ?R = [(authState c0)\<lparr>polling := True\<rparr>, timed_out]"
    by (subst c) (simp only: surfaced_checks)
  show "authState ?R = timed_out" by (simp add: run)
  show "\<not> pollInterval ?R" by (simp add: run)
qed

text \<open>Whatever the schedule.\<close>

lemma any_schedule:
  assumes "pollCount c0 = 0" and "events c0 = []"
  shows "checks (poll_run stub state ss (startPolling c0)) \<le> MAX_POLL_ATTEMPTS"
    and "filter is_check (events (poll_run stub state ss (startPolling c0))) =
           map (\<lambda>i. StatusCheck state ((i + 1) * POLL_INTERVAL_MS))
             [0..<checks (poll_run stub state ss (startPolling c0))]"
    and "MAX_POLL_ATTEMPTS < ticks ss \<Longrightarrow> \<not> pollInterval (poll_run stub state ss (startPolling c0))"
proof -
  let ?R = "poll_run stub state ss (startPolling c0)"
  have inv: "poll_inv state ?R"
    by (intro poll_inv_run poll_inv_start assms)
  then show "checks ?R \<le> MAX_POLL_ATTEMPTS"
    and "filter is_check (events ?R) =
           map (\<lambda>i. StatusCheck state ((i + 1) * POLL_INTERVAL_MS)) [0..<checks ?R]"
    by (simp_all add: poll_inv_def)
  show "\<not> pollInterval ?R" if "MAX_POLL_ATTEMPTS < ticks ss"
  proof
    assume armed: "pollInterval ?R"
    from armed_run [OF armed] assms(1)
    have "pollCount ?R = ticks ss" by (simp add: startPolling_def setAuthState_def)
    moreover from inv armed have "pollCount ?R \<le> MAX_POLL_ATTEMPTS"
      by (simp add: poll_inv_def)
    ultimately show False using that by simp
  qed
qed

lemma answer_stops:
  assumes "i \<in> set (inflight c)" and "checkAuthStatus (stub i) = Resolved r"
    and "status r = complete \<or> status r = error"
  shows "authState (poll_step stub state (Answer i) c) = shown_for r \<and>
         \<not> pollInterval (poll_run stub state (Answer i # rest) c) \<and>
         checks (poll_run stub state (Answer i # rest) c) = checks c"
proof -
  note a = answer_result [of i c stub r state, OF assms]
  have s: "\<not> pollInterval (poll_step stub state (Answer i) c)" by (simp add: a)
  have ch: "checks (poll_step stub state (Answer i) c) = checks c"
    by (simp add: a checks_def)
  from stopped_run [OF s, of stub state rest] ch a
  show ?thesis by simp
qed

text \<open>
  What \<^verbatim>\<open>checkAuthStatus\<close> resolves with and what it rejects: only an answer with
  a code from 200 to 299 reaches the branches of the timer's callback.
\<close>

lemma checkAuthStatus_resolves:
  "checkAuthStatus h = Resolved r \<longleftrightarrow> (\<exists>code. h = Response code r \<and> 200 \<le> code \<and> code < 300)"
  by (cases h) (auto simp: checkAuthStatus_def)

lemma checkAuthStatus_rejects:
  "(\<exists>m. checkAuthStatus h = Rejected m) \<longleftrightarrow>
     (\<forall>code r. h = Response code r \<longrightarrow> code < 200 \<or> 300 \<le> code)"
  by (cases h) (auto simp: checkAuthStatus_def)


text \<open>
  Claim C6 (poll controller bound and stop condition), as amended. The controller is
  started on a quiet state: counter at zero, nothing sent yet, no call in flight. Then,
  for every stub of the status endpoint and every schedule of ticks and answers:
  \<^item> at most 300 status checks are sent, the \<open>i\<close>-th of them \<open>i\<close> seconds after the
    start, and after more than 300 ticks the timer is cleared;
  \<^item> an answer that is a rejected call (a transport failure) or a pending response
    changes nothing but the set of calls in flight, so polling goes on while the budget
    lasts;
  \<^item> when a complete or error response is handled, its result is shown, the timer is
    cleared and no further check is sent, whatever comes after.

  When every call settles before the next tick:
  \<^item> if the first \<open>n\<close> answers continue the polling and the next is a complete or error
    response, exactly \<open>n + 1\<close> checks are sent, at 1000, 2000, ... milliseconds, none
    after it, and the result is shown exactly once, after the one notice that polling
    started;
  \<^item> if 300 answers continue the polling, exactly 300 checks are sent and the next
    tick shows the timeout and clears the timer.
\<close>

theorem poll_controller:
  assumes "pollCount c0 = 0" and "events c0 = []" and "inflight c0 = []"
  shows "MAX_POLL_ATTEMPTS = 300 \<and> POLL_INTERVAL_MS = 1000 \<and>
    (\<forall>ss. checks (poll_run stub state ss (startPolling c0)) \<le> 300 \<and>
          filter is_check (events (poll_run stub state ss (startPolling c0))) =
            map (\<lambda>i. StatusCheck state ((i + 1) * 1000))
              [0..<checks (poll_run stub state ss (startPolling c0))] \<and>
          (300 < ticks ss \<longrightarrow> \<not> pollInterval (poll_run stub state ss (startPolling c0)))) \<and>
    (\<forall>ss i. i \<in> set (inflight (poll_run stub state ss (startPolling c0))) \<and>
            continues (checkAuthStatus (stub i)) \<longrightarrow>
          poll_run stub state (ss @ [Answer i]) (startPolling c0) =
            (poll_run stub state ss (startPolling c0))
              \<lparr>inflight := removeAll i (inflight (poll_run stub state ss (startPolling c0)))\<rparr>) \<and>
    (\<forall>ss i code r rest.
          i \<in> set (inflight (poll_run stub state ss (startPolling c0))) \<and>
          stub i = Response code r \<and> 200 \<le> code \<and> code < 300 \<and>
          (status r = complete \<or> status r = error) \<longrightarrow>
          authState (poll_run stub state (ss @ [Answer i]) (startPolling c0)) = shown_for r \<and>
          \<not> pollInterval (poll_run stub state (ss @ Answer i # rest) (startPolling c0)) \<and>
          checks (poll_run stub state (ss @ Answer i # rest) (startPolling c0)) =
            checks (poll_run stub state ss (startPolling c0))) \<and>
    (\<forall>n code r rest.
          n < 300 \<and> (\<forall>i<n. continues (checkAuthStatus (stub i))) \<and>
          stub n = Response code r \<and> 200 \<le> code \<and> code < 300 \<and>
          (status r = complete \<or> status r = error) \<longrightarrow>
          checks (poll_run stub state (in_turn (n + 1) @ rest) (startPolling c0)) = n + 1 \<and>
          events (poll_run stub state (in_turn (n + 1) @ rest) (startPolling c0)) =
            SetAuthState ((authState c0)\<lparr>polling := True\<rparr>) #
            map (\<lambda>i. StatusCheck state ((i + 1) * 1000)) [0..<n + 1] @
            [SetAuthState (shown_for r)] \<and>
          surfaced (poll_run stub state (in_turn (n + 1) @ rest) (startPolling c0)) =
            [(authState c0)\<lparr>polling := True\<rparr>, shown_for r] \<and>
          authState (poll_run stub state (in_turn (n + 1) @ rest) (startPolling c0)) = shown_for r \<and>
          \<not> pollInterval (poll_run stub state (in_turn (n + 1) @ rest) (startPolling c0))) \<and>
    ((\<forall>i<300. continues (checkAuthStatus (stub i))) \<longrightarrow>
       (\<forall>rest.
          checks (poll_run stub state (in_turn 300 @ Tick # rest) (startPolling c0)) = 300 \<and>
          surfaced (poll_run stub state (in_turn 300 @ Tick # rest) (startPolling c0)) =
            [(authState c0)\<lparr>polling := True\<rparr>, timed_out] \<and>
          authState (poll_run stub state (in_turn 300 @ Tick # rest) (startPolling c0)) = timed_out \<and>
          \<not> pollInterval (poll_run stub state (in_turn 300 @ Tick # rest) (startPolling c0))))"
proof -
  have m: "MAX_POLL_ATTEMPTS = 300" by (simp add: MAX_POLL_ATTEMPTS_def)
  have p: "POLL_INTERVAL_MS = 1000" by (simp add: POLL_INTERVAL_MS_def)
  let ?R = "\<lambda>ss. poll_run stub state ss (startPolling c0)"
  have bound: "\<forall>ss. checks (?R ss) \<le> 300 \<and>
      filter is_check (events (?R ss)) =
        map (\<lambda>i. StatusCheck state ((i + 1) * 1000)) [0..<checks (?R ss)] \<and>
      (300 < ticks ss \<longrightarrow> \<not> pollInterval (?R ss))"
    using any_schedule [OF assms(1,2)] unfolding m p by blast
  have cont: "\<forall>ss i. i \<in> set (inflight (?R ss)) \<and> continues (checkAuthStatus (stub i)) \<longrightarrow>
      ?R (ss @ [Answer i]) = (?R ss)\<lparr>inflight := removeAll i (inflight (?R ss))\<rparr>"
  proof (intro allI impI, elim conjE)
    fix ss i
    assume "i \<in> set (inflight (?R ss))" and "continues (checkAuthStatus (stub i))"
    from answer_continues [of i "?R ss" stub state, OF this]
    show "?R (ss @ [Answer i]) = (?R ss)\<lparr>inflight := removeAll i (inflight (?R ss))\<rparr>"
      by (simp only: poll_run_append poll_run.simps)
  qed
  have stop: "\<forall>ss i code r rest.
      i \<in> set (inflight (?R ss)) \<and> stub i = Response code r \<and> 200 \<le> code \<and> code < 300 \<and>
      (status r = complete \<or> status r = error) \<longrightarrow>
      authState (?R (ss @ [Answer i])) = shown_for r \<and>
      \<not> pollInterval (?R (ss @ Answer i # rest)) \<and>
      checks (?R (ss @ Answer i # rest)) = checks (?R ss)"
  proof (intro allI impI, elim conjE)
    fix ss i code r rest
    assume i: "i \<in> set (inflight (?R ss))" and s: "stub i = Response code r"
      and c: "200 \<le> code" "code < 300" and t: "status r = complete \<or> status r = error"
    from s c have res: "checkAuthStatus (stub i) = Resolved r"
      by (simp add: checkAuthStatus_resolves)
    from answer_stops [of i "?R ss" stub r state rest, OF i res t]
    show "authState (?R (ss @ [Answer i])) = shown_for r \<and>
        \<not> pollInterval (?R (ss @ Answer i # rest)) \<and>
        checks (?R (ss @ Answer i # rest)) = checks (?R ss)"
      by (simp only: poll_run_append poll_run.simps) simp
  qed
  have seq: "\<forall>n code r rest.
      n < 300 \<and> (\<forall>i<n. continues (checkAuthStatus (stub i))) \<and>
      stub n = Response code r \<and> 200 \<le> code \<and> code < 300 \<and>
      (status r = complete \<or> status r = error) \<longrightarrow>
      checks (?R (in_turn (n + 1) @ rest)) = n + 1 \<and>
      events (?R (in_turn (n + 1) @ rest)) =
        SetAuthState ((authState c0)\<lparr>polling := True\<rparr>) #
        map (\<lambda>i. StatusCheck state ((i + 1) * 1000)) [0..<n + 1] @
        [SetAuthState (shown_for r)] \<and>
      surfaced (?R (in_turn (n + 1) @ rest)) = [(authState c0)\<lparr>polling := True\<rparr>, shown_for r] \<and>
      authState (?R (in_turn (n + 1) @ rest)) = shown_for r \<and>
      \<not> pollInterval (?R (in_turn (n + 1) @ rest))"
  proof (intro allI impI, elim conjE)
    fix n code r rest
    assume n: "n < 300" and b: "\<forall>i<n. continues (checkAuthStatus (stub i))"
      and s: "stub n = Response code r" and c: "200 \<le> code" "code < 300"
      and t: "status r = complete \<or> status r = error"
    from s c have res: "checkAuthStatus (stub n) = Resolved r"
      by (simp add: checkAuthStatus_resolves)
    from n have n': "n < MAX_POLL_ATTEMPTS" by (simp add: m)
    from polled_result [OF assms n' b res t, of state rest]
    show "checks (?R (in_turn (n + 1) @ rest)) = n + 1 \<and>
      events (?R (in_turn (n + 1) @ rest)) =
        SetAuthState ((authState c0)\<lparr>polling := True\<rparr>) #
        map (\<lambda>i. StatusCheck state ((i + 1) * 1000)) [0..<n + 1] @
        [SetAuthState (shown_for r)] \<and>
      surfaced (?R (in_turn (n + 1) @ rest)) = [(authState c0)\<lparr>polling := True\<rparr>, shown_for r] \<and>
      authState (?R (in_turn (n + 1) @ rest)) = shown_for r \<and>
      \<not> pollInterval (?R (in_turn (n + 1) @ rest))"
      by simp
  qed
  have exh: "(\<forall>i<300. continues (checkAuthStatus (stub i))) \<longrightarrow>
      (\<forall>rest. checks (?R (in_turn 300 @ Tick # rest)) = 300 \<and>
        surfaced (?R (in_turn 300 @ Tick # rest)) = [(authState c0)\<lparr>polling := True\<rparr>, timed_out] \<and>
        authState (?R (in_turn 300 @ Tick # rest)) = timed_out \<and>
        \<not> pollInterval (?R (in_turn 300 @ Tick # rest)))"
  proof (intro allI impI)
    fix rest
    assume "\<forall>i<300. continues (checkAuthStatus (stub i))"
    then have b: "\<forall>i<MAX_POLL_ATTEMPTS. continues (checkAuthStatus (stub i))" by (simp add: m)
    from polled_exhausted [OF assms b, of state rest]
    show "checks (?R (in_turn 300 @ Tick # rest)) = 300 \<and>
        surfaced (?R (in_turn 300 @ Tick # rest)) = [(authState c0)\<lparr>polling := True\<rparr>, timed_out] \<and>
        authState (?R (in_turn 300 @ Tick # rest)) = timed_out \<and>
        \<not> pollInterval (?R (in_turn 300 @ Tick # rest))"
      by (simp add: m)
  qed
  from m p bound cont stop seq exh show ?thesis by blast
qed


text \<open>
  The theorem at work: four pending responses and then a complete one, each before the
  next tick, give exactly five checks and the result once, and two more ticks change
  nothing; a pending answer to the second of three calls in flight only removes it
  from the calls in flight; a transport that always fails gives 300 checks and then
  the timeout, and 301 ticks clear the timer whatever the answers.
\<close>

lemma sent_three:
  "poll_run stub_pending4 ''ab'' [Tick, Tick, Tick] (startPolling initial) =
     (advance ''ab'' 3 (startPolling initial))\<lparr>inflight := [0, 1, 2]\<rparr>"
  by (simp add: poll_step_def tick_send_def startPolling_def setAuthState_def initial_def
      advance_def checks_def MAX_POLL_ATTEMPTS_def POLL_INTERVAL_MS_def upt_rec)

theorem poll_controller_witness:
  "pollCount initial = 0 \<and> events initial = [] \<and> inflight initial = [] \<and>
   checks (poll_run stub_pending4 ''ab'' (in_turn 5 @ [Tick, Tick]) (startPolling initial)) = 5 \<and>
   events (poll_run stub_pending4 ''ab'' (in_turn 5 @ [Tick, Tick]) (startPolling initial)) =
     [SetAuthState (idle\<lparr>polling := True\<rparr>),
      StatusCheck ''ab'' 1000, StatusCheck ''ab'' 2000, StatusCheck ''ab'' 3000,
      StatusCheck ''ab'' 4000, StatusCheck ''ab'' 5000,
      SetAuthState (idle\<lparr>success := Some True, accessToken := Some ''T'', idToken := Some ''I''\<rparr>)] \<and>
   \<not> pollInterval (poll_run stub_pending4 ''ab'' (in_turn 5 @ [Tick, Tick]) (startPolling initial)) \<and>
   poll_run stub_pending4 ''ab'' ([Tick, Tick, Tick] @ [Answer 1]) (startPolling initial) =
     (advance ''ab'' 3 (startPolling initial))\<lparr>inflight := [0, 2]\<rparr> \<and>
   checks (poll_run stub_pending4 ''ab'' slow_answers (startPolling initial)) \<le> 300 \<and>
   checks (poll_run stub_offline ''ab'' (in_turn 300 @ [Tick]) (startPolling initial)) = 300 \<and>
   authState (poll_run stub_offline ''ab'' (in_turn 300 @ [Tick]) (startPolling initial))
     = idle\<lparr>auth_error := Some ''Authentication timed out. Please try again.''\<rparr> \<and>
   \<not> pollInterval (poll_run stub_offline ''ab'' (replicate 301 Tick) (startPolling initial))"
proof -
  let ?r = "\<lparr>access_token = Some ''T'', refresh_token = None, id_token = Some ''I'',
             expires_in = Some 3600, status = complete, resp_error = None, resp_user = None\<rparr>"
  have h1: "pollCount initial = 0" and h2: "events initial = []" and h3: "inflight initial = []"
    by (simp_all add: initial_def)
  have a: "4 < (300::nat) \<and> (\<forall>i<4. continues (checkAuthStatus (stub_pending4 i))) \<and>
      stub_pending4 4 = Response 200 ?r \<and> (200::nat) \<le> 200 \<and> (200::nat) < 300 \<and>
      (status ?r = complete \<or> status ?r = error)"
    by (simp add: stub_pending4_def continues_def status_only_def checkAuthStatus_def)
  have b: "\<forall>i<300. continues (checkAuthStatus (stub_offline i))"
    by (simp add: stub_offline_def continues_def checkAuthStatus_def)
  have d: "1 \<in> set (inflight (poll_run stub_pending4 ''ab'' [Tick, Tick, Tick] (startPolling initial))) \<and>
      continues (checkAuthStatus (stub_pending4 1))"
    unfolding sent_three
    by (simp add: stub_pending4_def continues_def status_only_def checkAuthStatus_def)
  have tk: "300 < ticks (replicate 301 Tick)"
    by (simp add: ticks_def)
  note t = poll_controller [OF h1 h2 h3, of stub_pending4 "''ab''"]
  note u = poll_controller [OF h1 h2 h3, of stub_offline "''ab''"]
  from t a have c: "checks (poll_run stub_pending4 ''ab'' (in_turn (4 + 1) @ [Tick, Tick]) (startPolling initial)) = 4 + 1"
    and e: "events (poll_run stub_pending4 ''ab'' (in_turn (4 + 1) @ [Tick, Tick]) (startPolling initial)) =
        SetAuthState ((authState initial)\<lparr>polling := True\<rparr>) #
        map (\<lambda>i. StatusCheck ''ab'' ((i + 1) * 1000)) [0..<4 + 1] @ [SetAuthState (shown_for ?r)]"
    and s: "\<not> pollInterval (poll_run stub_pending4 ''ab'' (in_turn (4 + 1) @ [Tick, Tick]) (startPolling initial))"
    by blast+
  from t d have k: "poll_run stub_pending4 ''ab'' ([Tick, Tick, Tick] @ [Answer 1]) (startPolling initial) =
      (poll_run stub_pending4 ''ab'' [Tick, Tick, Tick] (startPolling initial))
        \<lparr>inflight := removeAll 1 (inflight (poll_run stub_pending4 ''ab'' [Tick, Tick, Tick] (startPolling initial)))\<rparr>"
    by blast
  from t have l: "checks (poll_run stub_pending4 ''ab'' slow_answers (startPolling initial)) \<le> 300"
    by blast
  from u b have o: "checks (poll_run stub_offline ''ab'' (in_turn 300 @ [Tick]) (startPolling initial)) = 300"
    and o2: "authState (poll_run stub_offline ''ab'' (in_turn 300 @ [Tick]) (startPolling initial)) = timed_out"
    by blast+
  from u tk have o3: "\<not> pollInterval (poll_run stub_offline ''ab'' (replicate 301 Tick) (startPolling initial))"
    by blast
  have up: "[0..<4 + 1] = [0, 1, 2, 3, 4::nat]"
    by (simp add: upt_rec)
  have five: "(4::nat) + 1 = 5" by simp
  from e have e': "events (poll_run stub_pending4 ''ab'' (in_turn (4 + 1) @ [Tick, Tick]) (startPolling initial)) =
     [SetAuthState (idle\<lparr>polling := True\<rparr>),
      StatusCheck ''ab'' 1000, StatusCheck ''ab'' 2000, StatusCheck ''ab'' 3000,
      StatusCheck ''ab'' 4000, StatusCheck ''ab'' 5000,
      SetAuthState (idle\<lparr>success := Some True, accessToken := Some ''T'', idToken := Some ''I''\<rparr>)]"
    by (simp only: up) (simp add: initial_def shown_for_def idle_def)
  from k have k': "poll_run stub_pending4 ''ab'' ([Tick, Tick, Tick] @ [Answer 1]) (startPolling initial) =
      (advance ''ab'' 3 (startPolling initial))\<lparr>inflight := [0, 2]\<rparr>"
    by (simp only: sent_three) simp
  from h1 h2 h3 c [unfolded five] e' [unfolded five] s [unfolded five] k' l o o2 o3
  show ?thesis by (simp only: timed_out_def) simp
qed


text \<open>
  The claim as it was stated does not hold, because the timer does not wait for the
  call in flight. The stub is the one of the claim, pending four times and then
  complete, and every answer takes two and a half seconds: three checks are out before
  the first answer is back, the complete response to the fifth check is handled after
  the seventh check was sent, and the sixth and seventh checks are answered with
  complete too, so the result is shown three times.
\<close>

theorem poll_overlap_counterexample:
  "checks (poll_run stub_pending4 ''ab'' slow_answers (startPolling initial)) = 7 \<and>
   surfaced (poll_run stub_pending4 ''ab'' slow_answers (startPolling initial)) =
     [idle\<lparr>polling := True\<rparr>,
      idle\<lparr>success := Some True, accessToken := Some ''T'', idToken := Some ''I''\<rparr>,
      idle\<lparr>success := Some True, accessToken := Some ''T'', idToken := Some ''I''\<rparr>,
      idle\<lparr>success := Some True, accessToken := Some ''T'', idToken := Some ''I''\<rparr>]"
  by (simp add: slow_answers_def poll_step_def tick_send_def tick_settle_def startPolling_def
      setAuthState_def initial_def checks_def surfaced_def stub_pending4_def checkAuthStatus_def
      handleAuthComplete_def stopPolling_def status_only_def idle_def
      MAX_POLL_ATTEMPTS_def POLL_INTERVAL_MS_def)


text \<open>
  A server with no record for the token answers with code 404, which
  \<^verbatim>\<open>checkAuthStatus\<close> rejects: the callback takes its \<^verbatim>\<open>catch\<close> branch, the
  \<^verbatim>\<open>not_found\<close> branch is not reached and the timer stays armed.
\<close>

lemma poll_not_found_rejected:
  "snd (auth_google_status ''ab'' []) =
     (404, (status_only not_found)\<lparr>resp_error := Some ''State not found or expired''\<rparr>) \<and>
   checkAuthStatus (stub_no_record 0) = Rejected ''Request failed with status code 404'' \<and>
   pollInterval (poll_run stub_no_record ''ab'' [Tick, Answer 0, Tick] (startPolling initial)) \<and>
   checks (poll_run stub_no_record ''ab'' [Tick, Answer 0, Tick] (startPolling initial)) = 2 \<and>
   surfaced (poll_run stub_no_record ''ab'' [Tick, Answer 0, Tick] (startPolling initial)) =
     [idle\<lparr>polling := True\<rparr>]"
  by (simp add: stub_no_record_def auth_google_status_def store_get_def poll_step_def tick_send_def
      tick_settle_def startPolling_def setAuthState_def initial_def checks_def surfaced_def
      checkAuthStatus_def status_only_def idle_def MAX_POLL_ATTEMPTS_def POLL_INTERVAL_MS_def)

section \<open>The store invariant and the whole hand-off\<close>

text \<open>
  The store starts empty, and every handler and the sweep keep its keys unique: the
  invariant assumed above always holds.
\<close>

lemma store_inv_empty: "store_inv []"
  by (simp add: store_inv_def)

lemma store_inv_start:
  "store_inv st \<Longrightarrow> store_inv (fst (auth_google_start ev randomBytes now st))"
  by (simp add: auth_google_start_def Let_def store_inv_set)

lemma store_inv_status:
  "store_inv st \<Longrightarrow> store_inv (fst (auth_google_status state st))"
  by (simp add: auth_google_status_def store_inv_delete split: option.splits entry.splits)

text \<open>
  The scenario of the specification: \<^verbatim>\<open>start\<close>, then the provider's redirect with a
  code whose exchange returns an identity token that verifies to the configured
  audience, then two status polls. The first poll delivers the tokens and the user, the
  second finds nothing.
\<close>

lemma exchange_verified:
  assumes "axios_post pr token_url (URLSearchParams_toString (exchange_params ev c)) = Inr td"
    and "id_token td = Some idt" and "idt \<noteq> []"
    and "axios_get pr (tokeninfo_url idt) = Inr v" and "aud v = CLIENT_ID ev"
  shows "exchange ev pr c =
           (Inr (td, Some (user_of v)),
            [POST token_url (URLSearchParams_toString (exchange_params ev c)),
             GET (tokeninfo_url idt)])"
  using assms by (simp add: exchange_def)

lemma toString_hex_nonempty: "randomBytes \<noteq> [] \<Longrightarrow> toString_hex randomBytes \<noteq> []"
  by (cases randomBytes) (simp_all add: toString_hex_def byte_hex_def)

lemma handoff:
  assumes cid: "CLIENT_ID ev = Some cid" "cid \<noteq> []" and rb: "randomBytes \<noteq> []"
    and c: "c \<noteq> []"
    and post: "axios_post pr token_url (URLSearchParams_toString (exchange_params ev c)) = Inr td"
    and idt: "id_token td = Some idt" "idt \<noteq> []"
    and get: "axios_get pr (tokeninfo_url idt) = Inr v" and aud: "aud v = Some cid"
    and r1: "auth_google_start ev randomBytes t0 st = (st1, (code1, StartAuthResponse tok url))"
    and r2: "auth_google_callback ev pr t1 \<lparr>q_code = Some c, q_state = Some tok, q_error = None\<rparr> st1
               = (st2, resp2)"
    and r3: "auth_google_status tok st2 = (st3, resp3)"
  shows "store_get st1 tok = Some (Pending t0)"
    and "store_get st2 tok = Some (Complete t1 td (Some (user_of v)))"
    and "resp3 =
           (200, \<lparr>access_token = access_token td, refresh_token = refresh_token td,
                  id_token = id_token td, expires_in = expires_in td,
                  status = complete, resp_error = None, resp_user = Some (user_of v)\<rparr>)"
    and "auth_google_status tok st3 =
           (st3, (404, (status_only not_found)\<lparr>resp_error := Some ''State not found or expired''\<rparr>))"
proof -
  let ?q = "\<lparr>q_code = Some c, q_state = Some tok, q_error = None\<rparr>"
  from cid r1 have tok: "tok = toString_hex randomBytes" and s1: "st1 = store_set tok (Pending t0) st"
    by (auto simp: auth_google_start_def truthy_def Let_def)
  from s1 show g1: "store_get st1 tok = Some (Pending t0)" by (simp add: store_get_set)
  from rb have ne: "tok \<noteq> []" by (simp add: tok toString_hex_nonempty)
  with g1 have kn: "known st1 (q_state ?q)" by (simp add: known_Some)
  have ex: "exchange ev pr (js_string (q_code ?q)) =
      (Inr (td, Some (user_of v)),
       [POST token_url (URLSearchParams_toString (exchange_params ev c)), GET (tokeninfo_url idt)])"
    using exchange_verified [OF post idt get] aud cid by (simp add: js_string_Some)
  have "st2 = store_set tok (Complete t1 td (Some (user_of v))) st1"
    using callback_exchange_ok [OF _ kn _ ex, of t1] c r2
    by (simp add: truthy_def js_string_Some)
  then show g2: "store_get st2 tok = Some (Complete t1 td (Some (user_of v)))"
    by (simp add: store_get_set)
  note sc = status_complete [OF g2]
  from sc r3 show "resp3 =
      (200, \<lparr>access_token = access_token td, refresh_token = refresh_token td,
             id_token = id_token td, expires_in = expires_in td,
             status = complete, resp_error = None, resp_user = Some (user_of v)\<rparr>)"
    by simp
  from sc r3 have "store_get st3 tok = None" by (auto simp: store_get_delete)
  then show "auth_google_status tok st3 =
      (st3, (404, (status_only not_found)\<lparr>resp_error := Some ''State not found or expired''\<rparr>))"
    by (rule status_not_found)
qed
end
